theory Spec2Isabelle
  imports Complex_Main "HOL-Library.Multiset"
begin

section \<open>Numeric conventions\<close>

text \<open>
  The program computes with NumPy float64 values. The clustering engine, the cluster ranker
  and the reward mapper are embedded over \<^typ>\<open>real\<close> (finite floats without rounding);
  the program's input is finite by construction (the data preparation replaces every
  non-finite ratio by zero).

  The elbow test of \<^verbatim>\<open>find_optimal_k\<close> is different: it compares distances that are equal
  in exact arithmetic, so its answer depends on how float64 rounds. That part is embedded
  in float64 arithmetic: a float64 value is a \<open>np_float\<close>, a finite value being the real
  number it stands for, and every operation rounds its exact result to the nearest
  float64, ties to even (\<open>round64\<close>). The sign of zero is not modelled.

  A two-dimensional array is the list of its rows; a one-dimensional array is a list.
\<close>

type_synonym vec = "real list"
type_synonym matrix = "real list list"

datatype error = ValueError | IndexError

datatype np_float = Finite real | PosInf | NegInf | NaN

text \<open>Rounding of a real to the nearest integer, a tie going to the even neighbour.\<close>

definition round_half_even :: "real \<Rightarrow> int" where
  "round_half_even r =
     (let f = \<lfloor>r\<rfloor>
      in if r - of_int f < 1 / 2 then f
         else if 1 / 2 < r - of_int f then f + 1
         else if even f then f else f + 1)"

text \<open>
  \<open>binade n a 0 1\<close> searches, in at most \<open>n\<close> steps of one exponent each, the power of two
  \<open>p = 2 ^ e\<close> with \<open>p \<le> a < 2 * p\<close>, the exponent kept within the range \<open>-1022 .. 1023\<close> of
  float64 (below \<open>2 ^ -1022\<close> the values are subnormal and share the exponent \<open>-1022\<close>).
\<close>

fun binade :: "nat \<Rightarrow> real \<Rightarrow> int \<Rightarrow> real \<Rightarrow> real" where
  "binade 0 a e p = p"
| "binade (Suc n) a e p =
     (if a < p then (if - 1022 < e then binade n a (e - 1) (p / 2) else p)
      else if 2 * p \<le> a then (if e < 1023 then binade n a (e + 1) (2 * p) else p)
      else p)"

text \<open>
  The float64 nearest to the real \<open>x\<close>: 53 significant bits, so the spacing of the values
  around \<open>x\<close> is \<open>2 ^ (e - 52)\<close>; a result of magnitude \<open>2 ^ 1024\<close> or more is an infinity.
\<close>

definition round64 :: "real \<Rightarrow> np_float" where
  "round64 x =
     (if x = 0 then Finite 0
      else
        let ulp = binade 1100 \<bar>x\<bar> 0 1 / 2 ^ 52;
            y = of_int (round_half_even (x / ulp)) * ulp
        in if 2 ^ 1024 \<le> \<bar>y\<bar> then (if 0 < x then PosInf else NegInf) else Finite y)"

text \<open>The float64 operations that \<^verbatim>\<open>find_optimal_k\<close> uses, with their non-finite cases.\<close>

fun np_neg :: "np_float \<Rightarrow> np_float" where
  "np_neg (Finite a) = Finite (- a)"
| "np_neg PosInf = NegInf"
| "np_neg NegInf = PosInf"
| "np_neg NaN = NaN"

fun np_add :: "np_float \<Rightarrow> np_float \<Rightarrow> np_float" where
  "np_add NaN b = NaN"
| "np_add a NaN = NaN"
| "np_add (Finite a) (Finite b) = round64 (a + b)"
| "np_add PosInf NegInf = NaN"
| "np_add NegInf PosInf = NaN"
| "np_add PosInf b = PosInf"
| "np_add NegInf b = NegInf"
| "np_add (Finite a) b = b"

definition np_sub :: "np_float \<Rightarrow> np_float \<Rightarrow> np_float" where
  "np_sub a b = np_add a (np_neg b)"

fun np_mul :: "np_float \<Rightarrow> np_float \<Rightarrow> np_float" where
  "np_mul NaN b = NaN"
| "np_mul a NaN = NaN"
| "np_mul (Finite a) (Finite b) = round64 (a * b)"
| "np_mul (Finite a) PosInf = (if a = 0 then NaN else if 0 < a then PosInf else NegInf)"
| "np_mul (Finite a) NegInf = (if a = 0 then NaN else if 0 < a then NegInf else PosInf)"
| "np_mul PosInf (Finite b) = (if b = 0 then NaN else if 0 < b then PosInf else NegInf)"
| "np_mul NegInf (Finite b) = (if b = 0 then NaN else if 0 < b then NegInf else PosInf)"
| "np_mul PosInf PosInf = PosInf"
| "np_mul PosInf NegInf = NegInf"
| "np_mul NegInf PosInf = NegInf"
| "np_mul NegInf NegInf = PosInf"

text \<open>
  Division of two float64 scalars: a zero divisor gives a non-finite value, not an error.
\<close>

fun np_divide :: "np_float \<Rightarrow> np_float \<Rightarrow> np_float" where
  "np_divide NaN b = NaN"
| "np_divide a NaN = NaN"
| "np_divide (Finite a) (Finite b) =
     (if b \<noteq> 0 then round64 (a / b)
      else if a = 0 then NaN
      else if 0 < a then PosInf else NegInf)"
| "np_divide (Finite a) b = Finite 0"
| "np_divide PosInf (Finite b) = (if 0 \<le> b then PosInf else NegInf)"
| "np_divide NegInf (Finite b) = (if 0 \<le> b then NegInf else PosInf)"
| "np_divide a b = NaN"

fun np_sqrt :: "np_float \<Rightarrow> np_float" where
  "np_sqrt (Finite a) = (if a < 0 then NaN else round64 (sqrt a))"
| "np_sqrt PosInf = PosInf"
| "np_sqrt NegInf = NaN"
| "np_sqrt NaN = NaN"

fun np_abs :: "np_float \<Rightarrow> np_float" where
  "np_abs (Finite a) = Finite \<bar>a\<bar>"
| "np_abs PosInf = PosInf"
| "np_abs NegInf = PosInf"
| "np_abs NaN = NaN"

text \<open>The comparison \<^verbatim>\<open>a > b\<close> of float64 values: false whenever an operand is NaN.\<close>

fun np_greater :: "np_float \<Rightarrow> np_float \<Rightarrow> bool" where
  "np_greater NaN b = False"
| "np_greater a NaN = False"
| "np_greater (Finite a) (Finite b) = (b < a)"
| "np_greater (Finite a) PosInf = False"
| "np_greater (Finite a) NegInf = True"
| "np_greater PosInf PosInf = False"
| "np_greater PosInf b = True"
| "np_greater NegInf b = False"

text \<open>The comparison \<^verbatim>\<open>a >= b\<close>, likewise false on NaN.\<close>

fun np_greater_equal :: "np_float \<Rightarrow> np_float \<Rightarrow> bool" where
  "np_greater_equal NaN b = False"
| "np_greater_equal a NaN = False"
| "np_greater_equal a b = (a = b \<or> np_greater a b)"

section \<open>The pseudo-random generator\<close>

text \<open>
  \<^verbatim>\<open>np.random.seed\<close> and \<^verbatim>\<open>np.random.choice\<close> belong to NumPy, not to the program. The
  embedding takes them as a parameter: \<open>np_seed s\<close> is the state of the global generator
  after seeding with \<open>s\<close>, and \<open>np_choice g n k\<close> is the result of
  \<^verbatim>\<open>np.random.choice(n, k, replace=False)\<close> in state \<open>g\<close>, together with the state after
  the draw. The state of the global generator is passed explicitly through every function
  that touches it.
\<close>

record 'g np_random =
  np_seed :: "int \<Rightarrow> 'g"
  np_choice :: "'g \<Rightarrow> nat \<Rightarrow> nat \<Rightarrow> nat list \<times> 'g"

text \<open>
  What NumPy promises of a draw without replacement of \<open>k \<le> n\<close> items from
  \<open>range(n)\<close>: \<open>k\<close> pairwise distinct positions below \<open>n\<close>.
\<close>

definition choice_ok :: "'g np_random \<Rightarrow> bool" where
  "choice_ok R =
     (\<forall>g n k. k \<le> n \<longrightarrow>
        length (fst (np_choice R g n k)) = k
        \<and> distinct (fst (np_choice R g n k))
        \<and> (\<forall>i \<in> set (fst (np_choice R g n k)). i < n))"

text \<open>
  A generator for running the model on concrete inputs: it has a single state and always
  draws the first \<open>k\<close> positions.
\<close>

definition first_k_random :: "unit np_random" where
  "first_k_random = \<lparr> np_seed = (\<lambda>s. ()), np_choice = (\<lambda>g n k. (take k [0..<n], g)) \<rparr>"

section \<open>KMedians engine\<close>

text \<open>
  \<^verbatim>\<open>distances = np.abs(X[:, None, :] - medoids[None, :, :]).sum(axis=2)\<close>:
  entry \<open>(i, j)\<close> is the sum over the components of the absolute differences of point \<open>i\<close>
  and medoid \<open>j\<close>.
\<close>

definition l1_distance :: "vec \<Rightarrow> vec \<Rightarrow> real" where
  "l1_distance x m = sum_list (map2 (\<lambda>a b. \<bar>a - b\<bar>) x m)"

definition distances :: "matrix \<Rightarrow> matrix \<Rightarrow> real list list" where
  "distances X medoids = map (\<lambda>x. map (\<lambda>m. l1_distance x m) medoids) X"

text \<open>
  \<^verbatim>\<open>np.argmin\<close> along a row: a left-to-right scan that moves to a new position only on a
  strictly smaller value. \<open>argmin_from i best v ds\<close> scans the rest \<open>ds\<close> of a row whose
  next position is \<open>i\<close>, with the best position and value so far. On an empty row NumPy
  raises; the loop below tests for that case before it calls \<open>argmin\<close>.
\<close>

fun argmin_from :: "nat \<Rightarrow> nat \<Rightarrow> real \<Rightarrow> real list \<Rightarrow> nat" where
  "argmin_from i best v [] = best"
| "argmin_from i best v (d # ds) =
     (if d < v then argmin_from (Suc i) i d ds else argmin_from (Suc i) best v ds)"

definition argmin :: "real list \<Rightarrow> nat" where
  "argmin row = (case row of [] \<Rightarrow> 0 | d # ds \<Rightarrow> argmin_from 1 0 d ds)"

text \<open>
  \<^verbatim>\<open>np.median(A, axis=0)\<close>: the median of every column; the median of an even number of
  values is the mean of the two middle ones.
\<close>

definition median :: "real list \<Rightarrow> real" where
  "median xs =
     (let s = sort xs; n = length s
      in if odd n then s ! (n div 2) else (s ! (n div 2 - 1) + s ! (n div 2)) / 2)"

definition median_axis0 :: "matrix \<Rightarrow> vec" where
  "median_axis0 A = map (\<lambda>j. median (map (\<lambda>row. row ! j) A)) [0..<length (hd A)]"

text \<open>\<^verbatim>\<open>X[labels == k]\<close>: the rows of \<open>X\<close> whose label is \<open>k\<close>.\<close>

definition members :: "matrix \<Rightarrow> nat list \<Rightarrow> nat \<Rightarrow> matrix" where
  "members X labels k = map fst (filter (\<lambda>(x, l). l = k) (zip X labels))"

text \<open>
  \<^verbatim>\<open>
  new_medoids = np.array([
      np.median(X[labels == k], axis=0) if np.any(labels == k) else medoids[k]
      for k in range(n_clusters)
  ])
  \<close>
\<close>

definition new_medoids :: "matrix \<Rightarrow> nat list \<Rightarrow> matrix \<Rightarrow> nat \<Rightarrow> matrix" where
  "new_medoids X labels medoids n_clusters =
     map (\<lambda>k. if members X labels k \<noteq> [] then median_axis0 (members X labels k)
               else medoids ! k) [0..<n_clusters]"

text \<open>
  \<^verbatim>\<open>np.allclose(a, b)\<close> with its default tolerances: every entry satisfies
  \<open>|a - b| \<le> 1e-8 + 1e-5 * |b|\<close>.
\<close>

definition isclose :: "real \<Rightarrow> real \<Rightarrow> bool" where
  "isclose a b = (\<bar>a - b\<bar> \<le> 1 / 10 ^ 8 + 1 / 10 ^ 5 * \<bar>b\<bar>)"

definition allclose :: "matrix \<Rightarrow> matrix \<Rightarrow> bool" where
  "allclose A B = list_all2 (list_all2 isclose) A B"

type_synonym clustering = "nat list \<times> matrix \<times> real"

text \<open>
  The loop \<^verbatim>\<open>for _ in range(max_iter)\<close> of \<^verbatim>\<open>kmedians\<close>, by recursion on the number of
  iterations left. The state of the loop is \<open>medoids\<close>, \<open>labels\<close> and \<open>total_cost\<close>. With no
  medoid, \<^verbatim>\<open>np.argmin\<close> reduces an axis of length zero and raises \<^verbatim>\<open>ValueError\<close>. On
  \<^verbatim>\<open>break\<close> the medoids are the ones of the previous iteration.
\<close>

fun kmedians_loop ::
  "nat \<Rightarrow> matrix \<Rightarrow> nat \<Rightarrow> matrix \<Rightarrow> nat list \<Rightarrow> real \<Rightarrow> error + clustering" where
  "kmedians_loop 0 X n_clusters medoids labels total_cost = Inr (labels, medoids, total_cost)"
| "kmedians_loop (Suc n) X n_clusters medoids labels total_cost =
     (if medoids = [] then Inl ValueError
      else
        let dist = distances X medoids;
            labels' = map argmin dist;
            min_distances = map min_list dist;
            total_cost' = sum_list min_distances;
            new = new_medoids X labels' medoids n_clusters
        in if allclose new medoids then Inr (labels', medoids, total_cost')
           else kmedians_loop n X n_clusters new labels' total_cost')"

text \<open>
  \<^verbatim>\<open>
  def kmedians(X, n_clusters, max_iter=100, random_state=100):
      np.random.seed(random_state)
      if len(X) < n_clusters:
          return np.zeros(len(X)), np.zeros((0, X.shape[1])), 0
      medoid_ids = np.random.choice(len(X), n_clusters, replace=False)
      medoids = X[medoid_ids]
      labels = np.zeros(len(X))
      total_cost = 0
      for _ in range(max_iter): ...
      return labels, medoids, total_cost
  \<close>
  The result is the returned triple or the error raised, and the state of the global
  generator afterwards; \<open>g0\<close> is the state of the generator before the call.
  \<^verbatim>\<open>np.random.choice\<close> raises \<^verbatim>\<open>ValueError\<close> on a negative size.
\<close>

definition kmedians ::
  "'g np_random \<Rightarrow> matrix \<Rightarrow> int \<Rightarrow> int \<Rightarrow> int \<Rightarrow> 'g \<Rightarrow> (error + clustering) \<times> 'g" where
  "kmedians R X n_clusters max_iter random_state g0 =
     (let g1 = np_seed R random_state
      in if int (length X) < n_clusters then (Inr (replicate (length X) 0, [], 0), g1)
         else if n_clusters < 0 then (Inl ValueError, g1)
         else
           let (medoid_ids, g2) = np_choice R g1 (length X) (nat n_clusters);
               medoids = map (\<lambda>i. X ! i) medoid_ids
           in (kmedians_loop (nat max_iter) X (nat n_clusters) medoids
                 (replicate (length X) 0) 0, g2))"

section \<open>Optimal-K selector\<close>

text \<open>
  The first loop of \<^verbatim>\<open>find_optimal_k\<close>: one run of \<^verbatim>\<open>kmedians(X, n_clusters=k)\<close>, with the
  default \<^verbatim>\<open>max_iter=100\<close> and \<^verbatim>\<open>random_state=100\<close>, for every \<open>k\<close> of \<open>k_range\<close>; an
  error of a run ends the loop.
\<close>

fun collect_costs ::
  "'g np_random \<Rightarrow> matrix \<Rightarrow> int list \<Rightarrow> 'g \<Rightarrow> (error + real list) \<times> 'g" where
  "collect_costs R X [] g = (Inr [], g)"
| "collect_costs R X (k # ks) g =
     (case kmedians R X k 100 100 g of
        (Inl e, g') \<Rightarrow> (Inl e, g')
      | (Inr (labels, medoids, cost), g') \<Rightarrow>
          (case collect_costs R X ks g' of
             (Inl e, g'') \<Rightarrow> (Inl e, g'')
           | (Inr costs, g'') \<Rightarrow> (Inr (cost # costs), g'')))"

text \<open>
  \<^verbatim>\<open>np.array([k, cost])\<close> is an array of two float64 values: the integer \<open>k\<close> is converted
  to float64 (without change for every \<open>k\<close> below \<open>2 ^ 53\<close>), and so is the cost, which
  the clustering engine hands over as a real number.
\<close>

definition np_point :: "int \<Rightarrow> real \<Rightarrow> np_float \<times> np_float" where
  "np_point k cost = (round64 (of_int k), round64 cost)"

text \<open>
  The distance of \<open>p0\<close> to the line through \<open>p1\<close> and \<open>p2\<close>, as the body of the second
  loop computes it, operation by operation in float64 (\<^verbatim>\<open>x**2\<close> is the product \<open>x * x\<close>):
  \<^verbatim>\<open>
  numerator = np.abs((p2[1] - p1[1])*p0[0] - (p2[0] - p1[0])*p0[1] + p2[0]*p1[1] - p2[1]*p1[0])
  denominator = np.sqrt((p2[1] - p1[1])**2 + (p2[0] - p1[0])**2)
  distance = numerator / denominator
  \<close>
\<close>

definition line_distance ::
  "np_float \<times> np_float \<Rightarrow> np_float \<times> np_float \<Rightarrow> np_float \<times> np_float \<Rightarrow> np_float" where
  "line_distance p1 p2 p0 =
     (let numerator =
            np_abs (np_sub (np_add (np_sub (np_mul (np_sub (snd p2) (snd p1)) (fst p0))
                                           (np_mul (np_sub (fst p2) (fst p1)) (snd p0)))
                                   (np_mul (fst p2) (snd p1)))
                           (np_mul (snd p2) (fst p1)));
          denominator =
            np_sqrt (np_add (np_mul (np_sub (snd p2) (snd p1)) (np_sub (snd p2) (snd p1)))
                            (np_mul (np_sub (fst p2) (fst p1)) (np_sub (fst p2) (fst p1))))
      in np_divide numerator denominator)"

text \<open>The second loop, \<^verbatim>\<open>for k, cost in zip(k_range, costs)\<close>, with its two variables.\<close>

fun elbow_loop ::
  "np_float \<times> np_float \<Rightarrow> np_float \<times> np_float \<Rightarrow> (int \<times> real) list \<Rightarrow> np_float \<Rightarrow> int \<Rightarrow> int"
  where
  "elbow_loop p1 p2 [] max_distance best_k = best_k"
| "elbow_loop p1 p2 ((k, cost) # rest) max_distance best_k =
     (let distance = line_distance p1 p2 (np_point k cost)
      in if np_greater distance max_distance then elbow_loop p1 p2 rest distance k
         else elbow_loop p1 p2 rest max_distance best_k)"

text \<open>
  \<^verbatim>\<open>
  def find_optimal_k(X, max_k=15):
      costs = []
      k_range = list(range(1, max_k + 1))
      for k in k_range: ...
      p1 = np.array([k_range[0], costs[0]])
      p2 = np.array([k_range[-1], costs[-1]])
      max_distance = 0
      best_k = k_range[0]
      for k, cost in zip(k_range, costs): ...
      return best_k
  \<close>
  Reading \<^verbatim>\<open>k_range[0]\<close> of an empty list raises \<^verbatim>\<open>IndexError\<close>.
\<close>

definition find_optimal_k :: "'g np_random \<Rightarrow> matrix \<Rightarrow> int \<Rightarrow> 'g \<Rightarrow> (error + int) \<times> 'g" where
  "find_optimal_k R X max_k g0 =
     (let k_range = [1..max_k]
      in case collect_costs R X k_range g0 of
           (Inl e, g) \<Rightarrow> (Inl e, g)
         | (Inr costs, g) \<Rightarrow>
             if k_range = [] then (Inl IndexError, g)
             else
               let p1 = np_point (hd k_range) (hd costs);
                   p2 = np_point (last k_range) (last costs)
               in (Inr (elbow_loop p1 p2 (zip k_range costs) (Finite 0) (hd k_range)), g))"

text \<open>
  The distance the second loop computes for candidate \<open>k\<close>, given the whole cost curve
  \<open>costs\<close> of \<open>k = 1, ..., length costs\<close>.
\<close>

definition curve_distance :: "real list \<Rightarrow> int \<Rightarrow> np_float" where
  "curve_distance costs k =
     line_distance (np_point 1 (hd costs)) (np_point (int (length costs)) (last costs))
       (np_point k (costs ! nat (k - 1)))"

text \<open>
  The perpendicular Euclidean distance that the specification speaks of, in exact
  arithmetic: the distance of the point \<open>(k, costs[k - 1])\<close> to the straight line through
  the two end points \<open>(1, costs[0])\<close> and \<open>(n, costs[n - 1])\<close> of the cost curve.
\<close>

definition perpendicular_distance :: "real list \<Rightarrow> int \<Rightarrow> real" where
  "perpendicular_distance costs k =
     (let x1 = 1; y1 = hd costs;
          x2 = of_int (int (length costs)); y2 = last costs;
          x0 = of_int k; y0 = costs ! nat (k - 1)
      in \<bar>(y2 - y1) * x0 - (x2 - x1) * y0 + x2 * y1 - y2 * x1\<bar>
           / sqrt ((y2 - y1)\<^sup>2 + (x2 - x1)\<^sup>2))"

text \<open>
  The float64 value of a decimal literal of the program text or of its input, as a real
  number (for inputs and literals within the float64 range).
\<close>

definition float64 :: "real \<Rightarrow> real" where
  "float64 x = (case round64 x of Finite y \<Rightarrow> y | _ \<Rightarrow> 0)"

section \<open>Cluster ranker\<close>

text \<open>
  \<^verbatim>\<open>
  temp_summary = user_averages.groupby("CLUSTER")["AVG_WEEKLY_THEO_WIN"].mean().reset_index()
  temp_summary = temp_summary.sort_values(by="AVG_WEEKLY_THEO_WIN", ascending=True).reset_index(drop=True)
  temp_summary["new_CLUSTER_id"] = temp_summary.index + 1
  cluster_mapping = dict(zip(temp_summary["CLUSTER"], temp_summary["new_CLUSTER_id"]))
  user_averages["CLUSTER"] = user_averages["CLUSTER"].map(cluster_mapping)
  \<close>
  The two columns of \<open>user_averages\<close> that the ranker reads are the list \<open>labels\<close> of
  cluster labels and the list \<open>vals\<close> of the primary metric, one entry per user.

  The mean of a group and the sort of the summary belong to pandas, not to the program, and
  are parameters of the embedding: \<open>pd_mean\<close> is the mean pandas computes from the values of
  a group, taken in row order (a float64 mean, so not the exact mean of the values), and
  \<open>pd_sort_values\<close> is \<^verbatim>\<open>sort_values(by="AVG_WEEKLY_THEO_WIN", ascending=True)\<close> on the rows
  \<open>(CLUSTER, mean)\<close> of \<open>temp_summary\<close>, called as the program calls it, with the default
  \<^verbatim>\<open>kind\<close>.
\<close>

type_synonym summary = "(nat \<times> real) list"

record pandas =
  pd_mean :: "real list \<Rightarrow> real"
  pd_sort_values :: "summary \<Rightarrow> summary"

text \<open>
  What pandas promises of that sort: the rows come back rearranged, in ascending order of
  the mean. The default kind is not a stable sort: nothing is promised on the order of
  rows of equal mean.
\<close>

definition ascending_sort :: "pandas \<Rightarrow> bool" where
  "ascending_sort P =
     (\<forall>rows. mset (pd_sort_values P rows) = mset rows
        \<and> sorted (map snd (pd_sort_values P rows)))"

text \<open>The exact mean, for running the model on concrete inputs.\<close>

definition mean :: "real list \<Rightarrow> real" where
  "mean xs = sum_list xs / real (length xs)"

text \<open>
  Two instances for running the model on concrete inputs, both with the exact mean (the
  float64 mean too on the inputs used here, small integers of an integer mean): one sorts
  by insertion and leaves rows of equal mean in the order received, the other sorts in
  ascending order as well and leaves rows of equal mean in reverse order.
\<close>

definition insertion_pandas :: pandas where
  "insertion_pandas = \<lparr> pd_mean = mean, pd_sort_values = sort_key snd \<rparr>"

definition reversing_pandas :: pandas where
  "reversing_pandas =
     \<lparr> pd_mean = mean, pd_sort_values = (\<lambda>rows. rev (sort_key (\<lambda>r. - snd r) rows)) \<rparr>"

text \<open>
  \<open>groupby(...).mean()\<close> gives one row per label that occurs, in ascending order of the
  label, with the mean of the metric over the users of that label.
\<close>

definition group_values :: "nat list \<Rightarrow> real list \<Rightarrow> nat \<Rightarrow> real list" where
  "group_values labels vals c = map snd (filter (\<lambda>(l, v). l = c) (zip labels vals))"

definition groupby_mean :: "pandas \<Rightarrow> nat list \<Rightarrow> real list \<Rightarrow> summary" where
  "groupby_mean P labels vals =
     map (\<lambda>c. (c, pd_mean P (group_values labels vals c))) (sort (remdups labels))"

text \<open>
  \<open>dict(zip(keys, values))\<close> is the map in which a later pair overrides an earlier one, and
  \<open>Series.map\<close> of a dictionary gives a missing value (\<open>None\<close>) for a label that is not a
  key.
\<close>

definition cluster_mapping :: "pandas \<Rightarrow> nat list \<Rightarrow> real list \<Rightarrow> (nat \<rightharpoonup> nat)" where
  "cluster_mapping P labels vals =
     (let temp_summary = pd_sort_values P (groupby_mean P labels vals);
          new_CLUSTER_id = map (\<lambda>i. i + 1) [0..<length temp_summary]
      in Map.empty (map fst temp_summary [\<mapsto>] new_CLUSTER_id))"

definition rank_clusters :: "pandas \<Rightarrow> nat list \<Rightarrow> real list \<Rightarrow> nat option list" where
  "rank_clusters P labels vals = map (cluster_mapping P labels vals) labels"

text \<open>
  The mean of the primary metric over the users whose final label is \<open>c\<close>, as pandas
  computes it (as \<^verbatim>\<open>cluster_means\<close> of the program does after the relabelling).
\<close>

definition final_mean :: "pandas \<Rightarrow> nat option list \<Rightarrow> real list \<Rightarrow> nat \<Rightarrow> real" where
  "final_mean P final vals c =
     pd_mean P (map snd (filter (\<lambda>(l, v). l = Some c) (zip final vals)))"

section \<open>Reward mapper\<close>

text \<open>
  \<^verbatim>\<open>
  def calculate_cb_amount(mean_val):
      val_10_percent = mean_val * 0.10
      return math.ceil(val_10_percent / 10.0) * 10
  \<close>
\<close>

definition calculate_cb_amount :: "real \<Rightarrow> int" where
  "calculate_cb_amount mean_val =
     (let val_10_percent = mean_val * (10 / 100)
      in \<lceil>val_10_percent / 10\<rceil> * 10)"

section \<open>Properties of the reward mapper\<close>

text \<open>
  Claim C8. For every cluster mean the reward mapper returns ten times the ceiling of
  (mean times 0.1, divided by 10); a mean of 47 gives 10, a mean of 123 gives 20 and a
  mean of 0 gives 0.
\<close>

theorem calculate_cb_amount_formula:
  "calculate_cb_amount m = 10 * \<lceil>m * (1 / 10) / 10\<rceil>
   \<and> calculate_cb_amount 47 = 10
   \<and> calculate_cb_amount 123 = 20
   \<and> calculate_cb_amount 0 = 0"
proof -
  have general: "calculate_cb_amount m = 10 * \<lceil>m * (1 / 10) / 10\<rceil>" for m
    by (simp add: calculate_cb_amount_def)
  have c47: "\<lceil>(47::real) * (1 / 10) / 10\<rceil> = 1"
    by (simp add: ceiling_eq_iff)
  have c123: "\<lceil>(123::real) * (1 / 10) / 10\<rceil> = 2"
    by (simp add: ceiling_eq_iff)
  have c0: "\<lceil>(0::real) * (1 / 10) / 10\<rceil> = 0"
    by simp
  show ?thesis
    using general [of m] general [of 47] general [of 123] general [of 0] c47 c123 c0
    by simp
qed

text \<open>
  Claim C9. The reward is monotonically non-decreasing in the cluster mean.
\<close>

theorem calculate_cb_amount_mono:
  "m1 \<le> m2 \<Longrightarrow> calculate_cb_amount m1 \<le> calculate_cb_amount m2"
proof -
  assume le: "m1 \<le> m2"
  have "m1 * (10 / 100) / 10 \<le> m2 * (10 / 100) / 10"
    using le by (simp add: divide_right_mono)
  then have "\<lceil>m1 * (10 / 100) / 10\<rceil> \<le> \<lceil>m2 * (10 / 100) / 10\<rceil>"
    by (rule ceiling_mono)
  then show ?thesis
    by (simp add: calculate_cb_amount_def)
qed

theorem calculate_cb_amount_mono_witness:
  "(47::real) \<le> 123 \<and> calculate_cb_amount 47 \<le> calculate_cb_amount 123"
proof -
  have h: "(47::real) \<le> 123" by simp
  show ?thesis
    using h calculate_cb_amount_mono [OF h] by simp
qed

section \<open>Properties of the KMedians engine\<close>

lemma choice_ok_first_k_random: "choice_ok first_k_random"
  by (simp add: choice_ok_def first_k_random_def)

text \<open>
  Claim C1. A run of \<open>kmedians\<close> starts by seeding the global generator, so its labels,
  medoids and cost (and the state it leaves the generator in) are the same whatever the
  state of the generator before the call: two runs with the same input and seed agree.
\<close>

theorem kmedians_deterministic:
  "kmedians R X n_clusters max_iter random_state g1
     = kmedians R X n_clusters max_iter random_state g2"
  by (simp add: kmedians_def)

text \<open>
  Claim C2. With fewer points than requested clusters (an empty input included),
  \<open>kmedians\<close> raises nothing and returns all-zero labels, one per point, no medoid and
  cost 0; every label is a valid cluster index.
\<close>

theorem kmedians_degenerate:
  assumes "int (length X) < n_clusters"
  shows "fst (kmedians R X n_clusters max_iter random_state g0)
           = Inr (replicate (length X) 0, [], 0)
         \<and> (\<forall>l \<in> set (replicate (length X) (0::nat)). int l < n_clusters)"
  using assms by (auto simp add: kmedians_def Let_def)

theorem kmedians_degenerate_witness:
  "int (length [[1::real, 2]]) < 3
   \<and> fst (kmedians first_k_random [[1, 2]] 3 100 100 ()) = Inr ([0], [], 0)
   \<and> fst (kmedians first_k_random [] 1 100 100 ()) = Inr ([], [], 0)"
  using kmedians_degenerate [of "[[1, 2]]" 3 first_k_random 100 100 "()"]
    kmedians_degenerate [of "[]" 1 first_k_random 100 100 "()"]
  by simp

lemma argmin_from_spec:
  assumes "row = pre @ ds" "length pre = i" "best < i" "v = row ! best"
    "\<forall>j<i. v \<le> row ! j" "\<forall>j<best. v < row ! j"
  shows "argmin_from i best v ds < length row
     \<and> (\<forall>j<length row. row ! argmin_from i best v ds \<le> row ! j)
     \<and> (\<forall>j<argmin_from i best v ds. row ! argmin_from i best v ds < row ! j)"
  using assms
proof (induction ds arbitrary: pre i best v)
  case Nil
  then show ?case by auto
next
  case (Cons d ds)
  have di: "row ! i = d" using Cons.prems by (simp add: nth_append)
  show ?case
  proof (cases "d < v")
    case True
    have "argmin_from (Suc i) i d ds < length row
     \<and> (\<forall>j<length row. row ! argmin_from (Suc i) i d ds \<le> row ! j)
     \<and> (\<forall>j<argmin_from (Suc i) i d ds. row ! argmin_from (Suc i) i d ds < row ! j)"
    proof (rule Cons.IH [of "pre @ [d]"])
      show "row = (pre @ [d]) @ ds" using Cons.prems by simp
      show "length (pre @ [d]) = Suc i" using Cons.prems by simp
      show "i < Suc i" by simp
      show "d = row ! i" using di by simp
      show "\<forall>j<Suc i. d \<le> row ! j"
        using Cons.prems True di by (auto simp: less_Suc_eq)
      show "\<forall>j<i. d < row ! j"
        using Cons.prems True by fastforce
    qed
    then show ?thesis using True by simp
  next
    case False
    have "argmin_from (Suc i) best v ds < length row
     \<and> (\<forall>j<length row. row ! argmin_from (Suc i) best v ds \<le> row ! j)
     \<and> (\<forall>j<argmin_from (Suc i) best v ds. row ! argmin_from (Suc i) best v ds < row ! j)"
    proof (rule Cons.IH [of "pre @ [d]"])
      show "row = (pre @ [d]) @ ds" using Cons.prems by simp
      show "length (pre @ [d]) = Suc i" using Cons.prems by simp
      show "best < Suc i" using Cons.prems by simp
      show "v = row ! best" using Cons.prems by simp
      show "\<forall>j<Suc i. v \<le> row ! j"
        using Cons.prems False di by (auto simp: less_Suc_eq)
      show "\<forall>j<best. v < row ! j"
        using Cons.prems by simp
    qed
    then show ?thesis using False by simp
  qed
qed

lemma argmin_spec:
  assumes "row \<noteq> []"
  shows "argmin row < length row
     \<and> (\<forall>j<length row. row ! argmin row \<le> row ! j)
     \<and> (\<forall>j<argmin row. row ! argmin row < row ! j)"
proof -
  obtain d ds where row: "row = d # ds" using assms by (cases row) auto
  have "argmin_from 1 0 d ds < length row
     \<and> (\<forall>j<length row. row ! argmin_from 1 0 d ds \<le> row ! j)
     \<and> (\<forall>j<argmin_from 1 0 d ds. row ! argmin_from 1 0 d ds < row ! j)"
    by (rule argmin_from_spec [of row "[d]"]) (auto simp: row)
  then show ?thesis by (simp add: argmin_def row)
qed

lemma argmin_less_length: "row \<noteq> [] \<Longrightarrow> argmin row < length row"
  using argmin_spec by blast






lemma length_new_medoids: "length (new_medoids X labels medoids n_clusters) = n_clusters"
  by (simp add: new_medoids_def)

lemma assign_in_range:
  assumes "medoids \<noteq> []"
  shows "\<forall>l \<in> set (map argmin (distances X medoids)). l < length medoids"
proof
  fix l assume "l \<in> set (map argmin (distances X medoids))"
  then obtain x where l: "l = argmin (map (\<lambda>m. l1_distance x m) medoids)"
    by (auto simp: distances_def)
  have "map (\<lambda>m. l1_distance x m) medoids \<noteq> []" using assms by simp
  from argmin_less_length [OF this] show "l < length medoids"
    by (simp add: l)
qed

lemma kmedians_loop_ok:
  assumes "length medoids = n_clusters" "0 < n_clusters"
    "length labels = length X" "\<forall>l \<in> set labels. l < n_clusters"
  shows "\<exists>labels' medoids' cost'.
           kmedians_loop n X n_clusters medoids labels total_cost = Inr (labels', medoids', cost')
           \<and> length labels' = length X
           \<and> (\<forall>l \<in> set labels'. l < n_clusters)
           \<and> length medoids' = n_clusters"
  using assms
proof (induction n arbitrary: medoids labels total_cost)
  case 0
  then show ?case by simp
next
  case (Suc n)
  let ?labels = "map argmin (distances X medoids)"
  let ?cost = "sum_list (map min_list (distances X medoids))"
  let ?new = "new_medoids X ?labels medoids n_clusters"
  have ne: "medoids \<noteq> []" using Suc.prems by auto
  have len: "length ?labels = length X" by (simp add: distances_def)
  have rng: "\<forall>l \<in> set ?labels. l < n_clusters"
    using assign_in_range [OF ne, of X] Suc.prems(1) by simp
  show ?case
  proof (cases "allclose ?new medoids")
    case True
    then show ?thesis
      using ne len rng Suc.prems(1) by (simp add: Let_def)
  next
    case False
    have "\<exists>labels' medoids' cost'.
           kmedians_loop n X n_clusters ?new ?labels ?cost = Inr (labels', medoids', cost')
           \<and> length labels' = length X
           \<and> (\<forall>l \<in> set labels'. l < n_clusters)
           \<and> length medoids' = n_clusters"
      by (rule Suc.IH [OF length_new_medoids Suc.prems(2) len rng])
    then show ?thesis
      using ne False by (simp add: Let_def)
  qed
qed

text \<open>
  Claim C3, as the code has it. With at least \<open>n_clusters \<ge> 1\<close> points, \<open>kmedians\<close> raises
  nothing, returns one label per point, every label in \<open>[0, n_clusters)\<close>, and exactly
  \<open>n_clusters\<close> medoid rows. The rows are started from pairwise distinct positions of \<open>X\<close>;
  they are not pairwise distinct as vectors when \<open>X\<close> repeats a point.
\<close>

theorem kmedians_labels_and_medoid_count:
  assumes "choice_ok R" "1 \<le> n_clusters" "n_clusters \<le> int (length X)"
  shows "\<exists>labels medoids cost g.
           kmedians R X n_clusters max_iter random_state g0 = (Inr (labels, medoids, cost), g)
           \<and> length labels = length X
           \<and> (\<forall>l \<in> set labels. int l < n_clusters)
           \<and> int (length medoids) = n_clusters"
proof -
  let ?g1 = "np_seed R random_state"
  let ?k = "nat n_clusters"
  obtain medoid_ids g2 where ch: "np_choice R ?g1 (length X) ?k = (medoid_ids, g2)"
    by (cases "np_choice R ?g1 (length X) ?k") auto
  have kn: "?k \<le> length X" using assms by simp
  have "length (fst (np_choice R ?g1 (length X) ?k)) = ?k"
    using assms(1) kn unfolding choice_ok_def by blast
  then have len_ids: "length medoid_ids = ?k" by (simp add: ch)
  let ?medoids = "map (\<lambda>i. X ! i) medoid_ids"
  have "\<exists>labels' medoids' cost'.
           kmedians_loop (nat max_iter) X ?k ?medoids (replicate (length X) 0) 0
             = Inr (labels', medoids', cost')
           \<and> length labels' = length X
           \<and> (\<forall>l \<in> set labels'. l < ?k)
           \<and> length medoids' = ?k"
    by (rule kmedians_loop_ok) (use assms len_ids in auto)
  then obtain labels' medoids' cost' where
    loop: "kmedians_loop (nat max_iter) X ?k ?medoids (replicate (length X) 0) 0
             = Inr (labels', medoids', cost')"
    and l1: "length labels' = length X"
    and l2: "\<forall>l \<in> set labels'. l < ?k"
    and l3: "length medoids' = ?k"
    by blast
  have run: "kmedians R X n_clusters max_iter random_state g0 = (Inr (labels', medoids', cost'), g2)"
    using assms(2,3) ch loop by (simp add: kmedians_def Let_def)
  have "\<forall>l \<in> set labels'. int l < n_clusters" using l2 assms(2) by auto
  moreover have "int (length medoids') = n_clusters" using l3 assms(2) by simp
  ultimately show ?thesis using run l1 by blast
qed

theorem kmedians_labels_and_medoid_count_witness:
  "choice_ok first_k_random \<and> (1::int) \<le> 2 \<and> 2 \<le> int (length [[0::real, 0], [1, 1], [10, 10]])
   \<and> (\<exists>labels medoids cost g.
         kmedians first_k_random [[0, 0], [1, 1], [10, 10]] 2 100 100 () = (Inr (labels, medoids, cost), g)
         \<and> length labels = length [[0::real, 0], [1, 1], [10, 10]]
         \<and> (\<forall>l \<in> set labels. int l < 2)
         \<and> int (length medoids) = 2)"
  using kmedians_labels_and_medoid_count [OF choice_ok_first_k_random, of 2 "[[0, 0], [1, 1], [10, 10]]" 100 100 "()"]
  using choice_ok_first_k_random by simp

text \<open>
  Two equal points and two clusters: both medoids are the same vector.
\<close>

theorem kmedians_duplicate_medoids:
  "(1::int) \<le> 2 \<and> 2 \<le> int (length [[1::real, 1], [1, 1]])
   \<and> fst (kmedians first_k_random [[1, 1], [1, 1]] 2 100 100 ()) = Inr ([0, 0], [[1, 1], [1, 1]], 0)
   \<and> \<not> distinct [[1::real, 1], [1, 1]]"
  by (simp add: kmedians_def first_k_random_def eval_nat_numeral distances_def l1_distance_def
      argmin_def new_medoids_def members_def median_axis0_def median_def allclose_def
      isclose_def Let_def)

section \<open>Properties of float64 rounding\<close>

text \<open>
  The exponent search ends on the binade of its argument, a rounded value is never NaN and
  rounds to itself, and a non-negative real rounds to a non-negative value. The lemmas
  \<open>round64_eqI\<close> and \<open>round64_sqrt_eqI\<close> give the rounded value from an exponent and an
  integer significand; \<open>round64_eval\<close> evaluates \<open>round64\<close> on a rational number.
\<close>

lemma binade_pos: "0 < p \<Longrightarrow> 0 < binade n a e p"
  by (induction n arbitrary: e p) auto

lemma two_powi_half: "(2::real) powi e / 2 = 2 powi (e - 1)"
  by (simp add: power_int_diff)

lemma two_powi_double: "2 * (2::real) powi e = 2 powi (e + 1)"
  by (simp add: power_int_add)

lemma binade_down:
  assumes "p = 2 powi e" "- 1022 \<le> e" "a < 2 * p" "nat (e + 1022) < n"
  shows "\<exists>e'. binade n a e p = 2 powi e' \<and> - 1022 \<le> e' \<and> e' \<le> e
           \<and> (2 powi e' \<le> a \<or> e' = - 1022) \<and> a < 2 * 2 powi e'"
  using assms
proof (induction n arbitrary: e p)
  case 0
  then show ?case by simp
next
  case (Suc n)
  show ?case
  proof (cases "a < p")
    case True
    show ?thesis
    proof (cases "- 1022 < e")
      case lo: True
      have "\<exists>e'. binade n a (e - 1) (p / 2) = 2 powi e' \<and> - 1022 \<le> e' \<and> e' \<le> e - 1
           \<and> (2 powi e' \<le> a \<or> e' = - 1022) \<and> a < 2 * 2 powi e'"
      proof (rule Suc.IH)
        show "p / 2 = 2 powi (e - 1)" using Suc.prems(1) by (simp add: two_powi_half)
        show "- 1022 \<le> e - 1" using lo by simp
        show "a < 2 * (p / 2)" using True by simp
        show "nat (e - 1 + 1022) < n" using Suc.prems(4) lo by linarith
      qed
      then obtain e' where "binade n a (e - 1) (p / 2) = 2 powi e'" "- 1022 \<le> e'" "e' \<le> e - 1"
        "2 powi e' \<le> a \<or> e' = - 1022" "a < 2 * 2 powi e'"
        by blast
      then show ?thesis using True lo by (intro exI [of _ e']) simp
    next
      case False
      then have "e = - 1022" using Suc.prems(2) by simp
      then show ?thesis using True Suc.prems by (intro exI [of _ e]) simp
    qed
  next
    case False
    then have "binade (Suc n) a e p = p" using Suc.prems(3) by simp
    then show ?thesis using False Suc.prems by (intro exI [of _ e]) simp
  qed
qed

lemma binade_up:
  assumes "p = 2 powi e" "e \<le> 1023" "p \<le> a" "nat (1023 - e) < n"
  shows "\<exists>e'. binade n a e p = 2 powi e' \<and> e \<le> e' \<and> e' \<le> 1023
           \<and> 2 powi e' \<le> a \<and> (a < 2 * 2 powi e' \<or> e' = 1023)"
  using assms
proof (induction n arbitrary: e p)
  case 0
  then show ?case by simp
next
  case (Suc n)
  have np: "\<not> a < p" using Suc.prems(3) by simp
  show ?case
  proof (cases "2 * p \<le> a")
    case True
    show ?thesis
    proof (cases "e < 1023")
      case hi: True
      have "\<exists>e'. binade n a (e + 1) (2 * p) = 2 powi e' \<and> e + 1 \<le> e' \<and> e' \<le> 1023
           \<and> 2 powi e' \<le> a \<and> (a < 2 * 2 powi e' \<or> e' = 1023)"
      proof (rule Suc.IH)
        show "2 * p = 2 powi (e + 1)" using Suc.prems(1) by (simp add: two_powi_double)
        show "e + 1 \<le> 1023" using hi by simp
        show "2 * p \<le> a" by (rule True)
        show "nat (1023 - (e + 1)) < n" using Suc.prems(4) hi by linarith
      qed
      then obtain e' where "binade n a (e + 1) (2 * p) = 2 powi e'" "e + 1 \<le> e'" "e' \<le> 1023"
        "2 powi e' \<le> a" "a < 2 * 2 powi e' \<or> e' = 1023"
        by blast
      then show ?thesis using True np hi by (intro exI [of _ e']) simp
    next
      case False
      then have "e = 1023" using Suc.prems(2) by simp
      then show ?thesis using True np Suc.prems by (intro exI [of _ e]) simp
    qed
  next
    case False
    then have "binade (Suc n) a e p = p" using np by simp
    then show ?thesis using False Suc.prems by (intro exI [of _ e]) simp
  qed
qed

lemma binade_spec:
  "\<exists>e. binade 1100 a 0 1 = 2 powi e \<and> - 1022 \<le> e \<and> e \<le> 1023
       \<and> (2 powi e \<le> a \<or> e = - 1022) \<and> (a < 2 * 2 powi e \<or> e = 1023)"
proof (cases "a < 1")
  case True
  have "\<exists>e'. binade 1100 a 0 1 = 2 powi e' \<and> - 1022 \<le> e' \<and> e' \<le> 0
           \<and> (2 powi e' \<le> a \<or> e' = - 1022) \<and> a < 2 * 2 powi e'"
    by (rule binade_down) (use True in simp_all)
  then show ?thesis by force
next
  case False
  have "\<exists>e'. binade 1100 a 0 1 = 2 powi e' \<and> 0 \<le> e' \<and> e' \<le> 1023
           \<and> 2 powi e' \<le> a \<and> (a < 2 * 2 powi e' \<or> e' = 1023)"
    by (rule binade_up) (use False in simp_all)
  then show ?thesis by force
qed

lemma round_half_even_int [simp]: "round_half_even (of_int m) = m"
  by (simp add: round_half_even_def)

lemma round_half_even_bounds:
  "\<lfloor>r\<rfloor> \<le> round_half_even r" "round_half_even r \<le> \<lfloor>r\<rfloor> + 1"
  by (simp_all add: round_half_even_def Let_def)

lemma round_half_even_nonneg: "0 \<le> r \<Longrightarrow> 0 \<le> round_half_even r"
  using round_half_even_bounds(1) [of r] by (simp add: order_trans [of 0 "\<lfloor>r\<rfloor>"])

lemma round_half_even_abs_le:
  assumes "\<bar>r\<bar> < of_int M"
  shows "\<bar>round_half_even r\<bar> \<le> M"
proof -
  have "r < of_int M" and "- of_int M < r" using assms by (simp_all add: abs_less_iff)
  then have "\<lfloor>r\<rfloor> < M" and "- M \<le> \<lfloor>r\<rfloor>"
    by (simp_all add: floor_less_iff le_floor_iff)
  then show ?thesis
    using round_half_even_bounds [of r] by linarith
qed

lemma round64_not_NaN: "round64 x \<noteq> NaN"
  by (simp add: round64_def Let_def)

lemma round64_zero [simp]: "round64 0 = Finite 0"
  by (simp add: round64_def)

lemma ulp_pos: "0 < binade n a 0 1 / 2 ^ 52"
  using binade_pos [of 1 n a 0] by simp

lemma round64_unfold:
  assumes "x \<noteq> 0"
  shows "round64 x =
     (if 2 ^ 1024 \<le> \<bar>of_int (round_half_even (x / (binade 1100 \<bar>x\<bar> 0 1 / 2 ^ 52)))
                        * (binade 1100 \<bar>x\<bar> 0 1 / 2 ^ 52)\<bar>
      then (if 0 < x then PosInf else NegInf)
      else Finite (of_int (round_half_even (x / (binade 1100 \<bar>x\<bar> 0 1 / 2 ^ 52)))
                     * (binade 1100 \<bar>x\<bar> 0 1 / 2 ^ 52)))"
  unfolding round64_def Let_def using assms by (simp only: if_False)

lemma round64_nonneg:
  assumes "0 \<le> x"
  shows "round64 x = PosInf \<or> (\<exists>y\<ge>0. round64 x = Finite y)"
proof (cases "x = 0")
  case True
  then show ?thesis by simp
next
  case False
  let ?ulp = "binade 1100 \<bar>x\<bar> 0 1 / 2 ^ 52"
  let ?y = "of_int (round_half_even (x / ?ulp)) * ?ulp"
  have "0 \<le> x / ?ulp" using assms ulp_pos [of 1100 "\<bar>x\<bar>"] by simp
  then have "0 \<le> round_half_even (x / ?ulp)" by (rule round_half_even_nonneg)
  then have y: "0 \<le> ?y"
    using ulp_pos [of 1100 "\<bar>x\<bar>"] by simp
  have pos: "0 < x" using False assms by simp
  show ?thesis
  proof (cases "2 ^ 1024 \<le> \<bar>?y\<bar>")
    case True
    then have "round64 x = PosInf"
      unfolding round64_unfold [OF False] using pos by (simp only: if_True)
    then show ?thesis by simp
  next
    case False
    then have "round64 x = Finite ?y"
      unfolding round64_unfold [OF \<open>x \<noteq> 0\<close>] by (simp only: if_False)
    then show ?thesis using y by blast
  qed
qed

lemma round64_Finite_cases:
  assumes "round64 x = Finite y" "x \<noteq> 0"
  shows "y = of_int (round_half_even (x / (binade 1100 \<bar>x\<bar> 0 1 / 2 ^ 52)))
               * (binade 1100 \<bar>x\<bar> 0 1 / 2 ^ 52)"
    and "\<bar>y\<bar> < 2 ^ 1024"
proof -
  let ?y = "of_int (round_half_even (x / (binade 1100 \<bar>x\<bar> 0 1 / 2 ^ 52)))
               * (binade 1100 \<bar>x\<bar> 0 1 / 2 ^ 52)"
  have small: "\<not> 2 ^ 1024 \<le> \<bar>?y\<bar>"
  proof
    assume "2 ^ 1024 \<le> \<bar>?y\<bar>"
    then have "round64 x = (if 0 < x then PosInf else NegInf)"
      unfolding round64_unfold [OF assms(2)] by (simp only: if_True)
    then show False using assms(1) by (cases "0 < x") simp_all
  qed
  then have "round64 x = Finite ?y"
    unfolding round64_unfold [OF assms(2)] by (simp only: if_False)
  then show "y = ?y" using assms(1) by simp
  then show "\<bar>y\<bar> < 2 ^ 1024" using small by (simp only: not_le)
qed

lemma divide_times_cancel: "u \<noteq> 0 \<Longrightarrow> y / u * u = (y::real)"
  by simp

lemma round64_exact:
  assumes "y \<noteq> 0" "\<bar>y\<bar> < 2 ^ 1024" "y / (binade 1100 \<bar>y\<bar> 0 1 / 2 ^ 52) = of_int m"
  shows "round64 y = Finite y"
proof -
  let ?ulp = "binade 1100 \<bar>y\<bar> 0 1 / 2 ^ 52"
  have u: "?ulp \<noteq> 0" using ulp_pos [of 1100 "\<bar>y\<bar>"] by simp
  have "of_int m * ?ulp = y / ?ulp * ?ulp" by (simp only: assms(3))
  also have "\<dots> = y" by (rule divide_times_cancel [OF u])
  finally have my: "of_int m * ?ulp = y" .
  have r: "round_half_even (y / ?ulp) = m"
    by (simp only: assms(3) round_half_even_int)
  have "\<not> 2 ^ 1024 \<le> \<bar>of_int (round_half_even (y / ?ulp)) * ?ulp\<bar>"
    unfolding r my using assms(2) by (simp only: not_le)
  then have "round64 y = Finite (of_int (round_half_even (y / ?ulp)) * ?ulp)"
    unfolding round64_unfold [OF assms(1)] by (simp only: if_False)
  then show ?thesis by (simp only: r my)
qed

lemma ulp_powi:
  assumes "binade 1100 a 0 1 = 2 powi e"
  shows "binade 1100 a 0 1 / 2 ^ 52 = 2 powi (e - 52)"
proof -
  have "(2::real) powi (e - 52) = 2 powi e / 2 powi 52"
    by (simp add: power_int_diff)
  then show ?thesis using assms by simp
qed

lemma two_powi_le_iff: "((2::real) powi m \<le> 2 powi n) = (m \<le> n)"
proof
  assume le: "(2::real) powi m \<le> 2 powi n"
  show "m \<le> n"
  proof (rule ccontr)
    assume "\<not> m \<le> n"
    then have "n < m" by simp
    then have "(2::real) powi n < 2 powi m"
      by (rule power_int_strict_increasing) simp
    then show False using le by simp
  qed
next
  assume "m \<le> n"
  then show "(2::real) powi m \<le> 2 powi n"
    by (rule power_int_increasing) simp
qed

lemma two_powi_split: "(2::real) powi (a + b) = 2 powi a * 2 powi b"
  by (simp add: power_int_add)

lemma two_powi_nat: "0 \<le> k \<Longrightarrow> (2::real) powi k = of_int (2 ^ nat k)"
  by (simp add: power_int_def)

lemma round64_idem:
  assumes "round64 x = Finite y"
  shows "round64 y = Finite y"
proof (cases "y = 0")
  case True
  then show ?thesis by simp
next
  case y0: False
  have x0: "x \<noteq> 0"
  proof
    assume "x = 0"
    then have "round64 x = Finite 0" by simp
    then show False using assms y0 by simp
  qed
  obtain e1 where b1: "binade 1100 \<bar>x\<bar> 0 1 = 2 powi e1" and e1: "- 1022 \<le> e1" "e1 \<le> 1023"
    and up1: "\<bar>x\<bar> < 2 * 2 powi e1 \<or> e1 = 1023"
    using binade_spec [of "\<bar>x\<bar>"] by blast
  define u1 :: real where "u1 = 2 powi (e1 - 52)"
  have u1: "binade 1100 \<bar>x\<bar> 0 1 / 2 ^ 52 = u1"
    unfolding u1_def by (rule ulp_powi [OF b1])
  have u1_pos: "0 < u1" by (simp add: u1_def)
  define n where "n = round_half_even (x / u1)"
  have y: "y = of_int n * u1" and ylt: "\<bar>y\<bar> < 2 ^ 1024"
    using round64_Finite_cases [OF assms x0] unfolding u1 n_def by blast+
  have q1: "2 * 2 powi e1 = 2 ^ 53 * u1"
  proof -
    have "(2::real) powi e1 = 2 powi (e1 - 52) * 2 powi 52"
      using two_powi_split [of "e1 - 52" 52] by simp
    then show ?thesis by (simp add: u1_def)
  qed
  have absy: "\<bar>y\<bar> = of_int \<bar>n\<bar> * u1"
    using u1_pos by (simp add: y abs_mult)
  have nb: "\<bar>n\<bar> \<le> 2 ^ 53"
    using up1
  proof
    assume "\<bar>x\<bar> < 2 * 2 powi e1"
    then have "\<bar>x\<bar> < 2 ^ 53 * u1" by (simp only: q1)
    then have "\<bar>x\<bar> / u1 < 2 ^ 53" using u1_pos by (simp add: pos_divide_less_eq)
    then have "\<bar>x / u1\<bar> < of_int (2 ^ 53)" using u1_pos by simp
    then show ?thesis unfolding n_def by (rule round_half_even_abs_le)
  next
    assume e: "e1 = 1023"
    have "(2::real) ^ 1024 = 2 ^ 53 * 2 ^ 971" by (simp flip: power_add)
    moreover have "u1 = 2 ^ 971" by (simp add: u1_def e)
    ultimately have "of_int \<bar>n\<bar> * u1 < 2 ^ 53 * u1" using ylt absy by simp
    then have "of_int \<bar>n\<bar> < (2::real) ^ 53" using u1_pos by simp
    then have "\<bar>n\<bar> < 2 ^ 53" by (metis of_int_less_numeral_power_cancel_iff)
    then show ?thesis by simp
  qed
  obtain e2 where b2: "binade 1100 \<bar>y\<bar> 0 1 = 2 powi e2" and e2: "- 1022 \<le> e2" "e2 \<le> 1023"
    and lo2: "2 powi e2 \<le> \<bar>y\<bar> \<or> e2 = - 1022"
    using binade_spec [of "\<bar>y\<bar>"] by blast
  define u2 :: real where "u2 = 2 powi (e2 - 52)"
  have u2: "binade 1100 \<bar>y\<bar> 0 1 / 2 ^ 52 = u2"
    unfolding u2_def by (rule ulp_powi [OF b2])
  have ybound: "\<bar>y\<bar> \<le> 2 powi (e1 + 1)"
  proof -
    have "of_int \<bar>n\<bar> \<le> (2::real) ^ 53" using nb by (metis of_int_le_numeral_power_cancel_iff)
    then have "of_int \<bar>n\<bar> * u1 \<le> 2 ^ 53 * u1" using u1_pos by simp
    then show ?thesis using q1 absy by (simp add: two_powi_split)
  qed
  have e21: "e2 \<le> e1 + 1"
    using lo2
  proof
    assume "2 powi e2 \<le> \<bar>y\<bar>"
    then have "(2::real) powi e2 \<le> 2 powi (e1 + 1)" using ybound by simp
    then show ?thesis by (simp only: two_powi_le_iff)
  next
    assume "e2 = - 1022"
    then show ?thesis using e1 by simp
  qed
  have "\<exists>m. y / u2 = of_int m"
  proof (cases "e2 \<le> e1")
    case True
    define k where "k = e1 - e2"
    have k: "0 \<le> k" using True by (simp add: k_def)
    have "u1 = u2 * 2 powi k"
      using two_powi_split [of "e2 - 52" k] by (simp add: u1_def u2_def k_def)
    then have "u1 = u2 * of_int (2 ^ nat k)" by (simp only: two_powi_nat [OF k])
    then have "y = of_int (n * 2 ^ nat k) * u2" by (simp add: y)
    moreover have "u2 \<noteq> 0" by (simp add: u2_def)
    ultimately have "y / u2 = of_int (n * 2 ^ nat k)" by simp
    then show ?thesis by blast
  next
    case False
    then have e: "e2 = e1 + 1" using e21 by simp
    then have "e2 \<noteq> - 1022" using e1 by simp
    then have "2 powi e2 \<le> \<bar>y\<bar>" using lo2 by simp
    then have "2 ^ 53 * u1 \<le> of_int \<bar>n\<bar> * u1"
      using q1 absy by (simp add: e two_powi_split)
    then have "(2::real) ^ 53 \<le> of_int \<bar>n\<bar>" using u1_pos by simp
    then have "2 ^ 53 \<le> \<bar>n\<bar>" by (metis numeral_power_le_of_int_cancel_iff)
    then have "\<bar>n\<bar> = 2 ^ 53" using nb by simp
    then have "n = 2 ^ 53 \<or> n = - (2 ^ 53)" by (simp add: abs_if split: if_splits)
    then obtain h :: int where h: "n = 2 * h" by auto
    have "u2 = 2 * u1"
      using two_powi_split [of "e1 - 52" 1] by (simp add: u1_def u2_def e)
    then have "y = of_int h * u2" by (simp add: y h)
    moreover have "u2 \<noteq> 0" by (simp add: u2_def)
    ultimately have "y / u2 = of_int h" by simp
    then show ?thesis by blast
  qed
  then obtain m where "y / (binade 1100 \<bar>y\<bar> 0 1 / 2 ^ 52) = of_int m"
    unfolding u2 by blast
  then show ?thesis by (rule round64_exact [OF y0 ylt])
qed

lemma two_powi_less_iff: "((2::real) powi m < 2 powi n) = (m < n)"
  using two_powi_le_iff [of n m] by (simp add: not_le [symmetric])

lemma binade_eq:
  assumes "- 1022 \<le> e" "e \<le> 1023" "2 powi e \<le> a" "a < 2 * 2 powi e"
  shows "binade 1100 a 0 1 = 2 powi e"
proof -
  from binade_spec [of a]
  obtain e' where b: "binade 1100 a 0 1 = 2 powi e'" and r: "- 1022 \<le> e'" "e' \<le> 1023"
    and lo: "2 powi e' \<le> a \<or> e' = - 1022" and hi: "a < 2 * 2 powi e' \<or> e' = 1023"
    by blast
  have "e' \<le> e"
  proof (cases "2 powi e' \<le> a")
    case True
    then have "(2::real) powi e' < 2 powi (e + 1)"
      using assms(4) by (simp add: two_powi_double)
    then show ?thesis by (simp add: two_powi_less_iff)
  next
    case False
    then show ?thesis using lo assms(1) by simp
  qed
  moreover have "e \<le> e'"
  proof (cases "a < 2 * 2 powi e'")
    case True
    then have "(2::real) powi e < 2 powi (e' + 1)"
      using assms(3) by (simp add: two_powi_double)
    then show ?thesis by (simp add: two_powi_less_iff)
  next
    case False
    then show ?thesis using hi assms(2) by simp
  qed
  ultimately show ?thesis using b by simp
qed

lemma round_half_even_eqI:
  assumes "of_int N - 1 / 2 < r" "r < of_int N + 1 / 2"
  shows "round_half_even r = N"
proof (cases "of_int N \<le> r")
  case True
  have "\<lfloor>r\<rfloor> = N" using True assms(2) by linarith
  then show ?thesis using assms(2) by (simp add: round_half_even_def Let_def)
next
  case False
  have f: "\<lfloor>r\<rfloor> = N - 1" using False assms(1) by linarith
  have "1 / 2 < r - of_int (N - 1)" using assms(1) by simp
  then show ?thesis unfolding round_half_even_def Let_def f by simp
qed

lemma round64_eqI:
  assumes "- 1022 \<le> e" "e \<le> 1023" "2 powi e \<le> \<bar>x\<bar>" "\<bar>x\<bar> < 2 * 2 powi e"
    and "u = 2 powi (e - 52)"
    and "(of_int N - 1 / 2) * u < x" "x < (of_int N + 1 / 2) * u"
    and "\<bar>of_int N * u\<bar> < 2 ^ 1024"
  shows "round64 x = Finite (of_int N * u)"
proof -
  have "(0::real) < 2 powi e" by simp
  then have x0: "x \<noteq> 0" using assms(3) by linarith
  have b: "binade 1100 \<bar>x\<bar> 0 1 = 2 powi e"
    by (rule binade_eq [OF assms(1-4)])
  have ulp: "binade 1100 \<bar>x\<bar> 0 1 / 2 ^ 52 = u"
    unfolding assms(5) by (rule ulp_powi [OF b])
  have u0: "0 < u" unfolding assms(5) by simp
  have "of_int N - 1 / 2 < x / u" "x / u < of_int N + 1 / 2"
    using assms(6,7) u0 by (simp_all add: pos_less_divide_eq pos_divide_less_eq)
  then have r: "round_half_even (x / u) = N" by (rule round_half_even_eqI)
  have ov: "\<not> 2 ^ 1024 \<le> \<bar>of_int N * u\<bar>" using assms(8) by linarith
  show ?thesis
    unfolding round64_unfold [OF x0] ulp r using ov by (simp only: if_False)
qed

lemma round64_sqrt_eqI:
  assumes "- 1022 \<le> e" "e \<le> 1023" "(2 powi e)\<^sup>2 \<le> v" "v < (2 * 2 powi e)\<^sup>2"
    and "u = 2 powi (e - 52)"
    and "0 \<le> (of_int N - 1 / 2) * u" "((of_int N - 1 / 2) * u)\<^sup>2 < v"
      "v < ((of_int N + 1 / 2) * u)\<^sup>2"
    and "\<bar>of_int N * u\<bar> < 2 ^ 1024"
  shows "round64 (sqrt v) = Finite (of_int N * u)"
proof -
  have p: "(0::real) \<le> 2 powi e" by simp
  have u0: "0 < u" unfolding assms(5) by simp
  have hi0: "0 \<le> (of_int N + 1 / 2) * u"
  proof -
    have "(of_int N - 1 / 2) * u \<le> (of_int N + 1 / 2) * u"
      using u0 by (simp add: mult_right_mono)
    then show ?thesis using assms(6) by linarith
  qed
  have s0: "0 \<le> sqrt v" using assms(3) by (simp add: order_trans [OF zero_le_power2])
  have a3: "2 powi e \<le> \<bar>sqrt v\<bar>"
    using real_le_rsqrt [OF assms(3)] s0 by simp
  have a4: "\<bar>sqrt v\<bar> < 2 * 2 powi e"
    using real_less_lsqrt [of "2 * 2 powi e" v] assms(4) p s0 by simp
  have a6: "(of_int N - 1 / 2) * u < sqrt v"
    by (rule real_less_rsqrt [OF assms(7)])
  have a7: "sqrt v < (of_int N + 1 / 2) * u"
    using real_less_lsqrt [of "(of_int N + 1 / 2) * u" v] hi0 assms(8) by simp
  show ?thesis
    by (rule round64_eqI [OF assms(1,2) a3 a4 assms(5) a6 a7 assms(9)])
qed

lemma binade_numeral:
  "binade (numeral n) a e p =
     (if a < p then (if - 1022 < e then binade (pred_numeral n) a (e - 1) (p / 2) else p)
      else if 2 * p \<le> a then (if e < 1023 then binade (pred_numeral n) a (e + 1) (2 * p) else p)
      else p)"
proof -
  have "binade (numeral n) a e p = binade (Suc (pred_numeral n)) a e p"
    by (simp only: numeral_eq_Suc)
  then show ?thesis by (simp only: binade.simps)
qed

lemmas round64_eval = round64_def Let_def binade_numeral round_half_even_def

lemma round64_one: "round64 1 = Finite 1"
  by (simp add: round64_eval)

lemma np_greater_irrefl: "\<not> np_greater a a"
  by (cases a) simp_all

lemma np_greater_trans: "np_greater a b \<Longrightarrow> np_greater b c \<Longrightarrow> np_greater a c"
  by (cases a; cases b; cases c) simp_all

lemma np_greater_asym: "np_greater a b \<Longrightarrow> \<not> np_greater b a"
  by (cases a; cases b) simp_all

lemma np_greater_not_NaN: "np_greater a b \<Longrightarrow> a \<noteq> NaN"
  by (cases a) simp_all

lemma np_greater_equal_cases: "np_greater_equal a b \<Longrightarrow> a = b \<or> np_greater a b"
  by (cases a; cases b) simp_all

lemma np_greater_NaN_right: "\<not> np_greater a NaN"
  by (cases a) simp_all

lemma np_greater_below_above:
  "\<not> np_greater a (Finite 0) \<Longrightarrow> \<not> np_greater (Finite 0) b \<Longrightarrow> \<not> np_greater a b"
  by (cases a; cases b) simp_all

lemma np_abs_nonneg: "\<not> np_greater (Finite 0) (np_abs x)"
  by (cases x) simp_all

lemma round64_nonneg_greater: "0 \<le> x \<Longrightarrow> \<not> np_greater (Finite 0) (round64 x)"
  using round64_nonneg [of x] by auto

lemma np_sqrt_nonneg: "\<not> np_greater (Finite 0) (np_sqrt x)"
  by (cases x) (simp_all add: round64_nonneg_greater)

lemma np_divide_nonneg:
  assumes "\<not> np_greater (Finite 0) a" "\<not> np_greater (Finite 0) b"
  shows "\<not> np_greater (Finite 0) (np_divide a b)"
proof (cases a)
  case (Finite x)
  then have x: "0 \<le> x" using assms(1) by simp
  show ?thesis
  proof (cases b)
    case (Finite y)
    then have y: "0 \<le> y" using assms(2) by simp
    have "0 \<le> x / y" using x y by simp
    then show ?thesis
      using \<open>a = Finite x\<close> Finite x by (simp add: round64_nonneg_greater)
  qed (simp_all add: \<open>a = Finite x\<close>)
next
  case PosInf
  then show ?thesis using assms(2) by (cases b) simp_all
next
  case NegInf
  then show ?thesis using assms(1) by simp
next
  case NaN
  then show ?thesis by simp
qed

lemma line_distance_nonneg: "\<not> np_greater (Finite 0) (line_distance p1 p2 p0)"
  unfolding line_distance_def Let_def
  by (rule np_divide_nonneg [OF np_abs_nonneg np_sqrt_nonneg])

section \<open>Properties of the optimal-K selector\<close>

lemma kmedians_returns:
  assumes "choice_ok R" "1 \<le> n_clusters"
  shows "\<exists>labels medoids cost g.
           kmedians R X n_clusters max_iter random_state g0 = (Inr (labels, medoids, cost), g)"
proof (cases "int (length X) < n_clusters")
  case True
  then show ?thesis by (simp add: kmedians_def Let_def)
next
  case False
  let ?g1 = "np_seed R random_state"
  let ?k = "nat n_clusters"
  obtain medoid_ids g2 where ch: "np_choice R ?g1 (length X) ?k = (medoid_ids, g2)"
    by (cases "np_choice R ?g1 (length X) ?k") auto
  have kn: "?k \<le> length X" using False by simp
  have "length (fst (np_choice R ?g1 (length X) ?k)) = ?k"
    using assms(1) kn unfolding choice_ok_def by blast
  then have len_ids: "length medoid_ids = ?k" by (simp add: ch)
  have "\<exists>labels' medoids' cost'.
           kmedians_loop (nat max_iter) X ?k (map (\<lambda>i. X ! i) medoid_ids) (replicate (length X) 0) 0
             = Inr (labels', medoids', cost')
           \<and> length labels' = length X
           \<and> (\<forall>l \<in> set labels'. l < ?k)
           \<and> length medoids' = ?k"
    by (rule kmedians_loop_ok) (use assms len_ids in auto)
  then show ?thesis
    using False assms(2) ch by (auto simp add: kmedians_def Let_def)
qed

lemma collect_costs_returns:
  assumes "choice_ok R" "\<forall>k \<in> set ks. 1 \<le> k"
  shows "\<exists>costs g. collect_costs R X ks g0 = (Inr costs, g) \<and> length costs = length ks"
  using assms(2)
proof (induction ks arbitrary: g0)
  case Nil
  then show ?case by simp
next
  case (Cons k ks)
  have "1 \<le> k" using Cons.prems by simp
  from kmedians_returns [OF assms(1) this, of X 100 100 g0]
  obtain labels medoids cost g where
    km: "kmedians R X k 100 100 g0 = (Inr (labels, medoids, cost), g)"
    by blast
  have "\<forall>k \<in> set ks. 1 \<le> k" using Cons.prems by simp
  from Cons.IH [OF this, of g]
  obtain costs g' where cc: "collect_costs R X ks g = (Inr costs, g')"
    and len: "length costs = length ks"
    by blast
  show ?case using km cc len by simp
qed

lemma elbow_loop_first_max:
  assumes "md \<noteq> NaN"
  shows "(elbow_loop p1 p2 kcs md bk = bk
            \<and> (\<forall>kc \<in> set kcs. \<not> np_greater (line_distance p1 p2 (np_point (fst kc) (snd kc))) md))
       \<or> (\<exists>i<length kcs. elbow_loop p1 p2 kcs md bk = fst (kcs ! i)
             \<and> np_greater (line_distance p1 p2 (np_point (fst (kcs ! i)) (snd (kcs ! i)))) md
             \<and> (\<forall>j<length kcs.
                   \<not> np_greater (line_distance p1 p2 (np_point (fst (kcs ! j)) (snd (kcs ! j))))
                       (line_distance p1 p2 (np_point (fst (kcs ! i)) (snd (kcs ! i)))))
             \<and> (\<forall>j<i.
                   \<not> np_greater_equal (line_distance p1 p2 (np_point (fst (kcs ! j)) (snd (kcs ! j))))
                       (line_distance p1 p2 (np_point (fst (kcs ! i)) (snd (kcs ! i))))))"
  using assms
proof (induction kcs arbitrary: md bk)
  case Nil
  then show ?case by simp
next
  case (Cons kc kcs)
  define d where "d x = line_distance p1 p2 (np_point (fst x) (snd x))" for x :: "int \<times> real"
  obtain k c where kc: "kc = (k, c)" by (cases kc) auto
  have d0: "line_distance p1 p2 (np_point k c) = d kc" by (simp add: d_def kc)
  note IH = Cons.IH [folded d_def]
  have goal: "(elbow_loop p1 p2 (kc # kcs) md bk = bk
            \<and> (\<forall>x \<in> set (kc # kcs). \<not> np_greater (d x) md))
       \<or> (\<exists>i<length (kc # kcs). elbow_loop p1 p2 (kc # kcs) md bk = fst ((kc # kcs) ! i)
             \<and> np_greater (d ((kc # kcs) ! i)) md
             \<and> (\<forall>j<length (kc # kcs). \<not> np_greater (d ((kc # kcs) ! j)) (d ((kc # kcs) ! i)))
             \<and> (\<forall>j<i. \<not> np_greater_equal (d ((kc # kcs) ! j)) (d ((kc # kcs) ! i))))"
  proof (cases "np_greater (d kc) md")
    case True
    have step: "elbow_loop p1 p2 (kc # kcs) md bk = elbow_loop p1 p2 kcs (d kc) k"
      using True d0 by (simp add: kc Let_def)
    have "d kc \<noteq> NaN" using True by (rule np_greater_not_NaN)
    from IH [OF this, of k]
    consider (a) "elbow_loop p1 p2 kcs (d kc) k = k" "\<forall>x \<in> set kcs. \<not> np_greater (d x) (d kc)"
      | (b) i where "i < length kcs" "elbow_loop p1 p2 kcs (d kc) k = fst (kcs ! i)"
          "np_greater (d (kcs ! i)) (d kc)"
          "\<forall>j<length kcs. \<not> np_greater (d (kcs ! j)) (d (kcs ! i))"
          "\<forall>j<i. \<not> np_greater_equal (d (kcs ! j)) (d (kcs ! i))"
      by blast
    then show ?thesis
    proof cases
      case a
      have "0 < length (kc # kcs)" by simp
      moreover have "elbow_loop p1 p2 (kc # kcs) md bk = fst ((kc # kcs) ! 0)"
        using step a(1) by (simp add: kc)
      moreover have "np_greater (d ((kc # kcs) ! 0)) md" using True by simp
      moreover have "\<forall>j<length (kc # kcs). \<not> np_greater (d ((kc # kcs) ! j)) (d ((kc # kcs) ! 0))"
        using a(2) np_greater_irrefl by (auto simp: nth_Cons split: nat.splits)
      moreover have "\<forall>j<0. \<not> np_greater_equal (d ((kc # kcs) ! j)) (d ((kc # kcs) ! 0))" by simp
      ultimately show ?thesis by blast
    next
      case b
      have h1: "\<not> np_greater (d kc) (d (kcs ! i))"
        using b(3) by (rule np_greater_asym)
      have h2: "\<not> np_greater_equal (d kc) (d (kcs ! i))"
        using np_greater_equal_cases [of "d kc" "d (kcs ! i)"] b(3) h1 np_greater_irrefl by auto
      have "Suc i < length (kc # kcs)" using b(1) by simp
      moreover have "elbow_loop p1 p2 (kc # kcs) md bk = fst ((kc # kcs) ! Suc i)"
        using step b(2) by simp
      moreover have "np_greater (d ((kc # kcs) ! Suc i)) md"
        using np_greater_trans [OF b(3) True] by simp
      moreover have "\<forall>j<length (kc # kcs). \<not> np_greater (d ((kc # kcs) ! j)) (d ((kc # kcs) ! Suc i))"
        using h1 b(4) by (auto simp: nth_Cons split: nat.splits)
      moreover have "\<forall>j<Suc i. \<not> np_greater_equal (d ((kc # kcs) ! j)) (d ((kc # kcs) ! Suc i))"
        using h2 b(5) by (auto simp: nth_Cons split: nat.splits)
      ultimately show ?thesis by blast
    qed
  next
    case False
    have step: "elbow_loop p1 p2 (kc # kcs) md bk = elbow_loop p1 p2 kcs md bk"
      using False d0 by (simp add: kc Let_def)
    from IH [OF Cons.prems, of bk]
    consider (a) "elbow_loop p1 p2 kcs md bk = bk" "\<forall>x \<in> set kcs. \<not> np_greater (d x) md"
      | (b) i where "i < length kcs" "elbow_loop p1 p2 kcs md bk = fst (kcs ! i)"
          "np_greater (d (kcs ! i)) md"
          "\<forall>j<length kcs. \<not> np_greater (d (kcs ! j)) (d (kcs ! i))"
          "\<forall>j<i. \<not> np_greater_equal (d (kcs ! j)) (d (kcs ! i))"
      by blast
    then show ?thesis
    proof cases
      case a
      then show ?thesis using step False by auto
    next
      case b
      have h1: "\<not> np_greater (d kc) (d (kcs ! i))"
        using np_greater_trans [OF _ b(3), of "d kc"] False by blast
      have h2: "\<not> np_greater_equal (d kc) (d (kcs ! i))"
        using np_greater_equal_cases [of "d kc" "d (kcs ! i)"] b(3) h1 False by auto
      have "Suc i < length (kc # kcs)" using b(1) by simp
      moreover have "elbow_loop p1 p2 (kc # kcs) md bk = fst ((kc # kcs) ! Suc i)"
        using step b(2) by simp
      moreover have "np_greater (d ((kc # kcs) ! Suc i)) md" using b(3) by simp
      moreover have "\<forall>j<length (kc # kcs). \<not> np_greater (d ((kc # kcs) ! j)) (d ((kc # kcs) ! Suc i))"
        using h1 b(4) by (auto simp: nth_Cons split: nat.splits)
      moreover have "\<forall>j<Suc i. \<not> np_greater_equal (d ((kc # kcs) ! j)) (d ((kc # kcs) ! Suc i))"
        using h2 b(5) by (auto simp: nth_Cons split: nat.splits)
      ultimately show ?thesis by blast
    qed
  qed
  then show ?case unfolding d_def .
qed

lemma elbow_loop_no_update:
  assumes "\<forall>kc \<in> set kcs. \<not> np_greater (line_distance p1 p2 (np_point (fst kc) (snd kc))) md"
  shows "elbow_loop p1 p2 kcs md bk = bk"
  using assms by (induction kcs) (auto simp: Let_def)

lemma k_range_facts:
  assumes "1 \<le> max_k"
  shows "[1..max_k] \<noteq> []" "hd [1..max_k] = 1" "last [1..max_k] = max_k"
    "length [1..max_k] = nat max_k" "\<forall>k \<in> set [1..max_k]. 1 \<le> k"
proof -
  show "[1..max_k] \<noteq> []" using assms by (simp add: upto_rec1)
  show "hd [1..max_k] = 1" using assms by (simp add: upto_rec1)
  show "last [1..max_k] = max_k" using assms by (simp add: upto_rec2)
  show "length [1..max_k] = nat max_k" using assms by simp
  show "\<forall>k \<in> set [1..max_k]. 1 \<le> k" by simp
qed

lemma find_optimal_k_unfold:
  assumes "1 \<le> max_k" "collect_costs R X [1..max_k] g0 = (Inr costs, g)"
    "length costs = nat max_k"
  shows "find_optimal_k R X max_k g0 =
           (Inr (elbow_loop (np_point 1 (hd costs)) (np_point (int (length costs)) (last costs))
                   (zip [1..max_k] costs) (Finite 0) 1), g)"
proof -
  have len: "int (length costs) = max_k"
    using assms(1,3) by simp
  show ?thesis
    unfolding find_optimal_k_def Let_def assms(2) len
    using assms(1) by (simp add: k_range_facts(2,3) [OF assms(1)])
qed

lemma curve_point:
  assumes "1 \<le> max_k" "length costs = nat max_k" "i < nat max_k"
  shows "line_distance (np_point 1 (hd costs)) (np_point (int (length costs)) (last costs))
           (np_point (fst (zip [1..max_k] costs ! i)) (snd (zip [1..max_k] costs ! i)))
         = curve_distance costs (1 + int i)"
proof -
  have i1: "i < length [1..max_k]" using assms by simp
  have i2: "i < length costs" using assms by simp
  have z: "zip [1..max_k] costs ! i = ([1..max_k] ! i, costs ! i)"
    using i1 i2 by (rule nth_zip)
  have "1 + int i \<le> max_k" using assms(3) by linarith
  then have n: "[1..max_k] ! i = 1 + int i" by (rule nth_upto)
  have m: "nat (1 + int i - 1) = i" by simp
  show ?thesis
    unfolding curve_distance_def z n m by simp
qed

text \<open>
  Claim C5, as the code has it. For \<open>max_k \<ge> 1\<close> the selector raises nothing and returns
  one \<open>k\<close> with \<open>1 \<le> k \<le> max_k\<close>. With \<open>costs\<close> the cost curve it collected and the
  distances to the line through the two end points as the program computes them in
  float64, no candidate has a distance greater than the one of \<open>k\<close>, and no candidate
  before \<open>k\<close> has a distance greater than or equal to it: \<open>k\<close> is the first candidate of
  maximum computed distance. No computed distance is negative. The generator is assumed
  to draw the number of positions asked for.
\<close>

theorem find_optimal_k_elbow:
  assumes "choice_ok R" "1 \<le> max_k"
  shows "\<exists>costs g k.
           collect_costs R X [1..max_k] g0 = (Inr costs, g)
           \<and> length costs = nat max_k
           \<and> find_optimal_k R X max_k g0 = (Inr k, g)
           \<and> 1 \<le> k \<and> k \<le> max_k
           \<and> (\<forall>j \<in> {1..max_k}. \<not> np_greater (curve_distance costs j) (curve_distance costs k))
           \<and> (\<forall>j \<in> {1..<k}. \<not> np_greater_equal (curve_distance costs j) (curve_distance costs k))
           \<and> (\<forall>j \<in> {1..max_k}. \<not> np_greater (Finite 0) (curve_distance costs j))"
proof -
  note kr = k_range_facts [OF assms(2)]
  from collect_costs_returns [OF assms(1) kr(5), of X g0]
  obtain costs g where cc: "collect_costs R X [1..max_k] g0 = (Inr costs, g)"
    and len: "length costs = nat max_k"
    using kr(4) by auto
  let ?p1 = "np_point 1 (hd costs)"
  let ?p2 = "np_point (int (length costs)) (last costs)"
  let ?kcs = "zip [1..max_k] costs"
  let ?r = "elbow_loop ?p1 ?p2 ?kcs (Finite 0) 1"
  define d where "d x = line_distance ?p1 ?p2 (np_point (fst x) (snd x))" for x :: "int \<times> real"
  have fk: "find_optimal_k R X max_k g0 = (Inr ?r, g)"
    by (rule find_optimal_k_unfold [OF assms(2) cc len])
  have lk: "length ?kcs = nat max_k" using kr(4) len by simp
  have pt: "d (?kcs ! i) = curve_distance costs (1 + int i)" if "i < nat max_k" for i
    unfolding d_def by (rule curve_point [OF assms(2) len that])
  have fst_nth: "fst (?kcs ! i) = 1 + int i" if "i < nat max_k" for i
  proof -
    have "1 + int i \<le> max_k" using that by linarith
    then have "[1..max_k] ! i = 1 + int i" by (rule nth_upto)
    then show ?thesis using that lk len kr(4) by simp
  qed
  have idx: "j = 1 + int (nat (j - 1)) \<and> nat (j - 1) < nat max_k" if "j \<in> {1..max_k}" for j
    using that by auto
  have cdj: "curve_distance costs j = d (?kcs ! nat (j - 1))" if "j \<in> {1..max_k}" for j
    using pt [of "nat (j - 1)"] idx [OF that] by simp
  have nonneg: "\<not> np_greater (Finite 0) (d x)" for x
    unfolding d_def by (rule line_distance_nonneg)
  have allnn: "\<forall>j \<in> {1..max_k}. \<not> np_greater (Finite 0) (curve_distance costs j)"
    using cdj nonneg by simp
  have "Finite 0 \<noteq> NaN" by simp
  from elbow_loop_first_max [OF this, of ?p1 ?p2 ?kcs 1, folded d_def]
  consider (a) "?r = 1" "\<forall>x \<in> set ?kcs. \<not> np_greater (d x) (Finite 0)"
    | (b) i where "i < length ?kcs" "?r = fst (?kcs ! i)"
        "\<forall>j<length ?kcs. \<not> np_greater (d (?kcs ! j)) (d (?kcs ! i))"
        "\<forall>j<i. \<not> np_greater_equal (d (?kcs ! j)) (d (?kcs ! i))"
    by blast
  then have goal: "1 \<le> ?r \<and> ?r \<le> max_k
         \<and> (\<forall>j \<in> {1..max_k}. \<not> np_greater (curve_distance costs j) (curve_distance costs ?r))
         \<and> (\<forall>j \<in> {1..<?r}. \<not> np_greater_equal (curve_distance costs j) (curve_distance costs ?r))"
  proof cases
    case a
    have "\<not> np_greater (curve_distance costs j) (curve_distance costs 1)"
      if "j \<in> {1..max_k}" for j
    proof -
      have "nat (j - 1) < length ?kcs" using idx [OF that] lk by simp
      then have "?kcs ! nat (j - 1) \<in> set ?kcs" by (rule nth_mem)
      then have "\<not> np_greater (d (?kcs ! nat (j - 1))) (Finite 0)" using a(2) by blast
      then have "\<not> np_greater (curve_distance costs j) (Finite 0)"
        using cdj [OF that] by simp
      moreover have "(1::int) \<in> {1..max_k}" using assms(2) by simp
      then have "\<not> np_greater (Finite 0) (curve_distance costs 1)" using allnn by blast
      ultimately show ?thesis by (rule np_greater_below_above)
    qed
    then show ?thesis unfolding a(1) using assms(2) by simp
  next
    case b
    have i: "i < nat max_k" using b(1) lk by simp
    have r: "?r = 1 + int i" using b(2) fst_nth [OF i] by simp
    have r_cd: "curve_distance costs (1 + int i) = d (?kcs ! i)"
      using pt [OF i] by simp
    have m1: "\<not> np_greater (curve_distance costs j) (curve_distance costs (1 + int i))"
      if "j \<in> {1..max_k}" for j
    proof -
      have "nat (j - 1) < length ?kcs" using idx [OF that] lk by simp
      then have "\<not> np_greater (d (?kcs ! nat (j - 1))) (d (?kcs ! i))" using b(3) by blast
      then show ?thesis using cdj [OF that] r_cd by simp
    qed
    have m2: "\<not> np_greater_equal (curve_distance costs j) (curve_distance costs (1 + int i))"
      if "j \<in> {1..<1 + int i}" for j
    proof -
      have j: "j \<in> {1..max_k}" using that i by auto
      have "nat (j - 1) < i" using that by auto
      then have "\<not> np_greater_equal (d (?kcs ! nat (j - 1))) (d (?kcs ! i))" using b(4) by blast
      then show ?thesis using cdj [OF j] r_cd by simp
    qed
    have "1 \<le> 1 + int i" "1 + int i \<le> max_k" using i by auto
    then show ?thesis unfolding r using m1 m2 by blast
  qed
  show ?thesis using cc len fk goal allnn by blast
qed

lemma kmedians_empty:
  assumes "1 \<le> k"
  shows "kmedians R [] k max_iter random_state g0 = (Inr ([], [], 0), np_seed R random_state)"
  using assms by (simp add: kmedians_def Let_def)

lemma collect_costs_empty:
  assumes "\<forall>k \<in> set ks. 1 \<le> k"
  shows "\<exists>g. collect_costs R [] ks g0 = (Inr (replicate (length ks) 0), g)"
  using assms
proof (induction ks arbitrary: g0)
  case Nil
  then show ?case by simp
next
  case (Cons k ks)
  have k: "1 \<le> k" using Cons.prems by simp
  have "\<forall>k \<in> set ks. 1 \<le> k" using Cons.prems by simp
  from Cons.IH [OF this, of "np_seed R 100"]
  obtain g where "collect_costs R [] ks (np_seed R 100) = (Inr (replicate (length ks) 0), g)"
    by blast
  then show ?case
    using kmedians_empty [OF k, of R 100 100 g0] by simp
qed

lemma np_mul_zero_left: "np_mul (Finite 0) b = Finite 0 \<or> np_mul (Finite 0) b = NaN"
  by (cases b) simp_all

lemma np_mul_zero_right: "np_mul a (Finite 0) = Finite 0 \<or> np_mul a (Finite 0) = NaN"
  by (cases a) simp_all

lemma np_sub_zero:
  assumes "a = Finite 0 \<or> a = NaN" "b = Finite 0 \<or> b = NaN"
  shows "np_sub a b = Finite 0 \<or> np_sub a b = NaN"
  using assms by (auto simp: np_sub_def)

lemma np_add_zero:
  assumes "a = Finite 0 \<or> a = NaN" "b = Finite 0 \<or> b = NaN"
  shows "np_add a b = Finite 0 \<or> np_add a b = NaN"
  using assms by auto

lemma np_abs_zero:
  assumes "a = Finite 0 \<or> a = NaN"
  shows "np_abs a = Finite 0 \<or> np_abs a = NaN"
  using assms by auto

lemma np_divide_zero:
  assumes "a = Finite 0 \<or> a = NaN"
  shows "np_divide a b = Finite 0 \<or> np_divide a b = NaN"
  using assms by (cases b) auto

lemma flat_curve_distance:
  "\<not> np_greater (line_distance (x1, Finite 0) (x2, Finite 0) (x0, Finite 0)) (Finite 0)"
proof -
  have z: "np_sub (Finite 0) (Finite 0) = Finite 0" by (simp add: np_sub_def)
  have "line_distance (x1, Finite 0) (x2, Finite 0) (x0, Finite 0) = Finite 0
        \<or> line_distance (x1, Finite 0) (x2, Finite 0) (x0, Finite 0) = NaN"
    unfolding line_distance_def Let_def fst_conv snd_conv z
    by (intro np_divide_zero np_abs_zero np_sub_zero np_add_zero np_mul_zero_left
        np_mul_zero_right)
  then show ?thesis by auto
qed

lemma find_optimal_k_empty:
  assumes "1 \<le> max_k"
  shows "fst (find_optimal_k R [] max_k g0) = Inr 1"
proof -
  note kr = k_range_facts [OF assms]
  from collect_costs_empty [OF kr(5), of R g0]
  obtain g where cc: "collect_costs R [] [1..max_k] g0 = (Inr (replicate (nat max_k) 0), g)"
    using kr(4) by auto
  let ?costs = "replicate (nat max_k) (0::real)"
  have len: "length ?costs = nat max_k" by simp
  have pos: "0 < nat max_k" using assms by simp
  have h: "hd ?costs = 0" using pos by (cases "nat max_k") simp_all
  have l: "last ?costs = 0" using pos by (cases "nat max_k") simp_all
  have "\<forall>kc \<in> set (zip [1..max_k] ?costs).
          \<not> np_greater (line_distance (np_point 1 (hd ?costs))
                 (np_point (int (length ?costs)) (last ?costs))
                 (np_point (fst kc) (snd kc))) (Finite 0)"
  proof
    fix kc assume "kc \<in> set (zip [1..max_k] ?costs)"
    moreover obtain a b where "kc = (a, b)" by (cases kc) auto
    ultimately have "b \<in> set ?costs" by (auto dest: set_zip_rightD)
    then have "snd kc = 0" using \<open>kc = (a, b)\<close> by simp
    then show "\<not> np_greater (line_distance (np_point 1 (hd ?costs))
                 (np_point (int (length ?costs)) (last ?costs))
                 (np_point (fst kc) (snd kc))) (Finite 0)"
      unfolding h l np_point_def using flat_curve_distance by simp
  qed
  then have "elbow_loop (np_point 1 (hd ?costs)) (np_point (int (length ?costs)) (last ?costs))
               (zip [1..max_k] ?costs) (Finite 0) 1 = 1"
    by (rule elbow_loop_no_update)
  then show ?thesis
    using find_optimal_k_unfold [OF assms cc len] by simp
qed

lemma find_optimal_k_no_candidate:
  assumes "max_k \<le> 0"
  shows "collect_costs R X [1..max_k] g0 = (Inr [], g0)"
    and "find_optimal_k R X max_k g0 = (Inl IndexError, g0)"
proof -
  have e: "[1..max_k] = []" using assms by simp
  show "collect_costs R X [1..max_k] g0 = (Inr [], g0)" by (simp add: e)
  show "find_optimal_k R X max_k g0 = (Inl IndexError, g0)"
    by (simp add: find_optimal_k_def e)
qed

text \<open>
  Claim C6, as the code has it. With \<open>max_k \<le> 0\<close> the selector makes no clustering run
  (the generator is left untouched) and raises \<open>IndexError\<close> when it reads the first
  candidate. With an empty feature set and \<open>max_k \<ge> 1\<close> it raises nothing: every run of
  \<open>kmedians\<close> returns its degenerate result, and the selector returns 1.
\<close>

theorem find_optimal_k_invalid_input:
  "(max_k \<le> 0 \<longrightarrow>
      collect_costs R X [1..max_k] g0 = (Inr [], g0)
      \<and> find_optimal_k R X max_k g0 = (Inl IndexError, g0))
   \<and> (1 \<le> max_k \<longrightarrow> fst (find_optimal_k R [] max_k g0) = Inr 1)"
  using find_optimal_k_no_candidate [of max_k R X g0] find_optimal_k_empty [of max_k R g0]
  by blast

theorem find_optimal_k_invalid_input_witness:
  "(0::int) \<le> 0
   \<and> find_optimal_k first_k_random [[1, 2]] 0 () = (Inl IndexError, ())
   \<and> (1::int) \<le> 3
   \<and> fst (find_optimal_k first_k_random [] 3 ()) = Inr 1"
  using find_optimal_k_invalid_input [of 0 first_k_random "[[1, 2]]" "()"]
    find_optimal_k_invalid_input [of 3 first_k_random "[[1, 2]]" "()"]
  by simp

text \<open>
  The empty feature set with \<open>max_k = 3\<close>: three clustering runs, each of cost 0, and the
  answer 1 without any error.
\<close>

theorem find_optimal_k_empty_input_no_error:
  "fst (collect_costs first_k_random [] [1..3] ()) = Inr [0, 0, 0]
   \<and> fst (find_optimal_k first_k_random [] 3 ()) = Inr 1"
proof -
  have r: "[1..3] = [1, 2, 3::int]" by (simp add: upto_rec1)
  have k: "kmedians first_k_random [] n 100 100 () = (Inr ([], [], 0), ())" if "1 \<le> n" for n
    using that by (simp add: kmedians_def first_k_random_def)
  have cc: "collect_costs first_k_random [] [1, 2, 3] () = (Inr [0, 0, 0], ())"
    by (simp add: k)
  have d: "\<not> np_greater (line_distance (np_point 1 0) (np_point 3 0) (np_point a 0)) (Finite 0)"
    for a
    unfolding np_point_def using flat_curve_distance by simp
  show ?thesis
    unfolding find_optimal_k_def Let_def r cc by (simp add: d)
qed

lemma line_distance_degenerate:
  "line_distance (np_point 1 c) (np_point 1 c) (np_point 1 c) = NaN"
proof (cases "round64 c")
  case (Finite y)
  have i: "round64 y = Finite y" using Finite by (rule round64_idem)
  show ?thesis
    unfolding line_distance_def Let_def np_point_def
    by (simp add: Finite i round64_one np_sub_def)
next
  case PosInf
  show ?thesis
    unfolding line_distance_def Let_def np_point_def
    by (simp add: PosInf round64_one np_sub_def)
next
  case NegInf
  show ?thesis
    unfolding line_distance_def Let_def np_point_def
    by (simp add: NegInf round64_one np_sub_def)
next
  case NaN
  then show ?thesis using round64_not_NaN by simp
qed

lemma single_candidate:
  assumes "collect_costs R X [1..1] g0 = (Inr costs, g)" "length costs = 1"
  shows "\<exists>c. costs = [c] \<and> curve_distance [c] 1 = NaN
           \<and> find_optimal_k R X 1 g0 = (Inr 1, g)"
proof -
  obtain c where c: "costs = [c]"
    using assms(2) by (cases costs) auto
  have nan: "line_distance (np_point 1 c) (np_point 1 c) (np_point 1 c) = NaN"
    by (rule line_distance_degenerate)
  have cd: "curve_distance [c] 1 = NaN"
    using nan by (simp add: curve_distance_def)
  have one: "[1..1] = [1::int]" by (simp add: upto_rec1)
  have "find_optimal_k R X 1 g0 = (Inr 1, g)"
    using assms(1) nan by (simp add: find_optimal_k_def one c Let_def)
  then show ?thesis using c cd by simp
qed

text \<open>
  Claim C10. With \<open>max_k = 1\<close> the two end points of the cost curve coincide, the distance
  of the only candidate is \<open>0 / 0 = NaN\<close>, the comparison \<open>NaN > 0\<close> is false, and the
  selector returns the initial \<open>best_k = 1\<close> without raising.
\<close>

theorem find_optimal_k_single_candidate:
  assumes "choice_ok R"
  shows "\<exists>c g. collect_costs R X [1..1] g0 = (Inr [c], g)
           \<and> curve_distance [c] 1 = NaN
           \<and> \<not> np_greater (curve_distance [c] 1) (Finite 0)
           \<and> find_optimal_k R X 1 g0 = (Inr 1, g)"
proof -
  have "\<forall>k \<in> set [1..1::int]. 1 \<le> k" by simp
  from collect_costs_returns [OF assms this, of X g0]
  obtain costs g where cc: "collect_costs R X [1..1] g0 = (Inr costs, g)"
    and len: "length costs = 1"
    by auto
  from single_candidate [OF cc len]
  obtain c where c: "costs = [c]" and cd: "curve_distance [c] 1 = NaN"
    and fk: "find_optimal_k R X 1 g0 = (Inr 1, g)"
    by blast
  have "\<not> np_greater (curve_distance [c] 1) (Finite 0)" by (simp add: cd)
  then show ?thesis using cc c cd fk by blast
qed

lemma kmedians_loop_numeral:
  "kmedians_loop (numeral n) X n_clusters medoids labels total_cost =
     (if medoids = [] then Inl ValueError
      else
        let dist = distances X medoids;
            labels' = map argmin dist;
            min_distances = map min_list dist;
            total_cost' = sum_list min_distances;
            new = new_medoids X labels' medoids n_clusters
        in if allclose new medoids then Inr (labels', medoids, total_cost')
           else kmedians_loop (pred_numeral n) X n_clusters new labels' total_cost')"
proof -
  have "kmedians_loop (numeral n) X n_clusters medoids labels total_cost
          = kmedians_loop (Suc (pred_numeral n)) X n_clusters medoids labels total_cost"
    by (simp only: numeral_eq_Suc)
  then show ?thesis by (simp only: kmedians_loop.simps)
qed

lemmas kmedians_eval = kmedians_def first_k_random_def kmedians_loop_numeral distances_def
  l1_distance_def argmin_def new_medoids_def members_def median_axis0_def median_def
  allclose_def isclose_def Let_def upt_conv_Cons

lemma three_points_k1: "kmedians first_k_random [[0], [1], [10]] 1 100 100 () = (Inr ([0, 0, 0], [[1]], 10), ())"
  by (simp add: kmedians_eval)

lemma three_points_k2: "kmedians first_k_random [[0], [1], [10]] 2 100 100 () = (Inr ([0, 0, 1], [[1 / 2], [10]], 1), ())"
  by (simp add: kmedians_eval)

lemma three_points_k3: "kmedians first_k_random [[0], [1], [10]] 3 100 100 () = (Inr ([0, 1, 2], [[0], [1], [10]], 0), ())"
  by (simp add: kmedians_eval)

lemma three_points_costs: "collect_costs first_k_random [[0], [1], [10]] [1, 2, 3] () = (Inr [10, 1, 0], ())"
  by (simp add: three_points_k1 three_points_k2 three_points_k3)

lemma three_points_op_1: "np_point 1 10 = (Finite 1, Finite 10)"
  by (simp add: np_point_def round64_eval)

lemma three_points_op_2: "np_point 3 0 = (Finite 3, Finite 0)"
  by (simp add: np_point_def round64_eval)

lemma three_points_op_3: "np_sub (Finite 0) (Finite 10) = Finite (- 10)"
  by (simp add: np_sub_def round64_eval)

lemma three_points_op_4: "np_sub (Finite 3) (Finite 1) = Finite 2"
  by (simp add: np_sub_def round64_eval)

lemma three_points_op_5: "np_mul (Finite (- 10)) (Finite 1) = Finite (- 10)"
  by (simp add: np_sub_def round64_eval)

lemma three_points_op_6: "np_mul (Finite 2) (Finite 10) = Finite 20"
  by (simp add: np_sub_def round64_eval)

lemma three_points_op_7: "np_sub (Finite (- 10)) (Finite 20) = Finite (- 30)"
  by (simp add: np_sub_def round64_eval)

lemma three_points_op_8: "np_mul (Finite 3) (Finite 10) = Finite 30"
  by (simp add: np_sub_def round64_eval)

lemma three_points_op_9: "np_add (Finite (- 30)) (Finite 30) = Finite 0"
  by (simp add: np_sub_def round64_eval)

lemma three_points_op_10: "np_mul (Finite 0) (Finite 1) = Finite 0"
  by (simp add: np_sub_def round64_eval)

lemma three_points_op_11: "np_sub (Finite 0) (Finite 0) = Finite 0"
  by (simp add: np_sub_def round64_eval)

lemma three_points_op_12: "np_abs (Finite 0) = Finite 0"
  by simp

lemma three_points_op_13: "np_mul (Finite (- 10)) (Finite (- 10)) = Finite 100"
  by (simp add: np_sub_def round64_eval)

lemma three_points_op_14: "np_mul (Finite 2) (Finite 2) = Finite 4"
  by (simp add: np_sub_def round64_eval)

lemma three_points_op_15: "np_add (Finite 100) (Finite 4) = Finite 104"
  by (simp add: np_sub_def round64_eval)

lemma three_points_op_16: "np_sqrt (Finite 104) = Finite (2870492797671419 / 281474976710656)"
proof -
  have "round64 (sqrt (104)) = Finite (of_int 5740985595342838 * (1 / 562949953421312))"
    by (rule round64_sqrt_eqI [where e = "3"]) (simp_all add: power_int_def power_divide power2_eq_square)
  then show ?thesis by simp
qed

lemma three_points_op_17: "np_divide (Finite 0) (Finite (2870492797671419 / 281474976710656)) = Finite 0"
  by (simp add: np_sub_def round64_eval)

lemma three_points_distance_1: "line_distance (np_point 1 10) (np_point 3 0) (np_point 1 10) = Finite 0"
  unfolding line_distance_def Let_def three_points_op_1 three_points_op_2 three_points_op_3 three_points_op_4 three_points_op_5 three_points_op_6 three_points_op_7 three_points_op_8 three_points_op_9 three_points_op_10 three_points_op_11 three_points_op_12 three_points_op_13 three_points_op_14 three_points_op_15 three_points_op_16 three_points_op_17 fst_conv snd_conv
  by (rule refl)

lemma three_points_op_18: "np_point 2 1 = (Finite 2, Finite 1)"
  by (simp add: np_point_def round64_eval)

lemma three_points_op_19: "np_mul (Finite (- 10)) (Finite 2) = Finite (- 20)"
  by (simp add: np_sub_def round64_eval)

lemma three_points_op_20: "np_mul (Finite 2) (Finite 1) = Finite 2"
  by (simp add: np_sub_def round64_eval)

lemma three_points_op_21: "np_sub (Finite (- 20)) (Finite 2) = Finite (- 22)"
  by (simp add: np_sub_def round64_eval)

lemma three_points_op_22: "np_add (Finite (- 22)) (Finite 30) = Finite 8"
  by (simp add: np_sub_def round64_eval)

lemma three_points_op_23: "np_sub (Finite 8) (Finite 0) = Finite 8"
  by (simp add: np_sub_def round64_eval)

lemma three_points_op_24: "np_abs (Finite 8) = Finite 8"
  by simp

lemma three_points_op_25: "np_divide (Finite 8) (Finite (2870492797671419 / 281474976710656)) = Finite (1766457106259335 / 2251799813685248)"
  by (simp add: np_sub_def round64_eval)

lemma three_points_distance_2: "line_distance (np_point 1 10) (np_point 3 0) (np_point 2 1) = Finite (1766457106259335 / 2251799813685248)"
  unfolding line_distance_def Let_def three_points_op_1 three_points_op_2 three_points_op_3 three_points_op_4 three_points_op_5 three_points_op_6 three_points_op_7 three_points_op_8 three_points_op_9 three_points_op_10 three_points_op_11 three_points_op_12 three_points_op_13 three_points_op_14 three_points_op_15 three_points_op_16 three_points_op_17 three_points_op_18 three_points_op_19 three_points_op_20 three_points_op_21 three_points_op_22 three_points_op_23 three_points_op_24 three_points_op_25 fst_conv snd_conv
  by (rule refl)

lemma three_points_op_26: "np_mul (Finite (- 10)) (Finite 3) = Finite (- 30)"
  by (simp add: np_sub_def round64_eval)

lemma three_points_op_27: "np_mul (Finite 2) (Finite 0) = Finite 0"
  by (simp add: np_sub_def round64_eval)

lemma three_points_op_28: "np_sub (Finite (- 30)) (Finite 0) = Finite (- 30)"
  by (simp add: np_sub_def round64_eval)

lemma three_points_distance_3: "line_distance (np_point 1 10) (np_point 3 0) (np_point 3 0) = Finite 0"
  unfolding line_distance_def Let_def three_points_op_1 three_points_op_2 three_points_op_3 three_points_op_4 three_points_op_5 three_points_op_6 three_points_op_7 three_points_op_8 three_points_op_9 three_points_op_10 three_points_op_11 three_points_op_12 three_points_op_13 three_points_op_14 three_points_op_15 three_points_op_16 three_points_op_17 three_points_op_18 three_points_op_19 three_points_op_20 three_points_op_21 three_points_op_22 three_points_op_23 three_points_op_24 three_points_op_25 three_points_op_26 three_points_op_27 three_points_op_28 fst_conv snd_conv
  by (rule refl)

lemma rounding_op_1: "np_point 1 (2871044762448691 / 562949953421312) = (Finite 1, Finite (2871044762448691 / 562949953421312))"
  by (simp add: np_point_def round64_eval)

lemma rounding_op_2: "np_point 2 (3602879701896397 / 18014398509481984) = (Finite 2, Finite (3602879701896397 / 18014398509481984))"
  by (simp add: np_point_def round64_eval)

lemma rounding_op_3: "np_sub (Finite (3602879701896397 / 18014398509481984)) (Finite (2871044762448691 / 562949953421312)) = Finite (- (5516909543528857 / 1125899906842624))"
  by (simp add: np_sub_def round64_eval)

lemma rounding_op_4: "np_sub (Finite 2) (Finite 1) = Finite 1"
  by (simp add: np_sub_def round64_eval)

lemma rounding_op_5: "np_mul (Finite (- (5516909543528857 / 1125899906842624))) (Finite 1) = Finite (- (5516909543528857 / 1125899906842624))"
  by (simp add: np_sub_def round64_eval)

lemma rounding_op_6: "np_mul (Finite 1) (Finite (2871044762448691 / 562949953421312)) = Finite (2871044762448691 / 562949953421312)"
  by (simp add: np_sub_def round64_eval)

lemma rounding_op_7: "np_sub (Finite (- (5516909543528857 / 1125899906842624))) (Finite (2871044762448691 / 562949953421312)) = Finite (- 10)"
  by (simp add: np_sub_def round64_eval)

lemma rounding_op_8: "np_mul (Finite 2) (Finite (2871044762448691 / 562949953421312)) = Finite (2871044762448691 / 281474976710656)"
  by (simp add: np_sub_def round64_eval)

lemma rounding_op_9: "np_add (Finite (- 10)) (Finite (2871044762448691 / 281474976710656)) = Finite (56294995342131 / 281474976710656)"
  by (simp add: np_sub_def round64_eval)

lemma rounding_op_10: "np_mul (Finite (3602879701896397 / 18014398509481984)) (Finite 1) = Finite (3602879701896397 / 18014398509481984)"
  by (simp add: np_sub_def round64_eval)

lemma rounding_op_11: "np_sub (Finite (56294995342131 / 281474976710656)) (Finite (3602879701896397 / 18014398509481984)) = Finite (- (13 / 18014398509481984))"
  by (simp add: np_sub_def round64_eval)

lemma rounding_op_12: "np_abs (Finite (- (13 / 18014398509481984))) = Finite (13 / 18014398509481984)"
  by simp

lemma rounding_op_13: "np_mul (Finite (- (5516909543528857 / 1125899906842624))) (Finite (- (5516909543528857 / 1125899906842624))) = Finite (6758214190822849 / 281474976710656)"
  by (simp add: np_sub_def round64_eval)

lemma rounding_op_14: "np_mul (Finite 1) (Finite 1) = Finite 1"
  by (simp add: np_sub_def round64_eval)

lemma rounding_op_15: "np_add (Finite (6758214190822849 / 281474976710656)) (Finite 1) = Finite (7039689167533505 / 281474976710656)"
  by (simp add: np_sub_def round64_eval)

lemma rounding_op_16: "np_sqrt (Finite (7039689167533505 / 281474976710656)) = Finite (1407656330388121 / 281474976710656)"
proof -
  have "round64 (sqrt (7039689167533505 / 281474976710656)) = Finite (of_int 5630625321552484 * (1 / 1125899906842624))"
    by (rule round64_sqrt_eqI [where e = "2"]) (simp_all add: power_int_def power_divide power2_eq_square)
  then show ?thesis by simp
qed

lemma rounding_op_17: "np_divide (Finite (13 / 18014398509481984)) (Finite (1407656330388121 / 281474976710656)) = Finite (5853508930842247 / 40564819207303340847894502572032)"
  by (simp add: np_sub_def round64_eval)

lemma rounding_distance_1: "line_distance (np_point 1 (2871044762448691 / 562949953421312)) (np_point 2 (3602879701896397 / 18014398509481984)) (np_point 1 (2871044762448691 / 562949953421312)) = Finite (5853508930842247 / 40564819207303340847894502572032)"
  unfolding line_distance_def Let_def rounding_op_1 rounding_op_2 rounding_op_3 rounding_op_4 rounding_op_5 rounding_op_6 rounding_op_7 rounding_op_8 rounding_op_9 rounding_op_10 rounding_op_11 rounding_op_12 rounding_op_13 rounding_op_14 rounding_op_15 rounding_op_16 rounding_op_17 fst_conv snd_conv
  by (rule refl)

lemma rounding_op_18: "np_mul (Finite (- (5516909543528857 / 1125899906842624))) (Finite 2) = Finite (- (5516909543528857 / 562949953421312))"
  by (simp add: np_sub_def round64_eval)

lemma rounding_op_19: "np_mul (Finite 1) (Finite (3602879701896397 / 18014398509481984)) = Finite (3602879701896397 / 18014398509481984)"
  by (simp add: np_sub_def round64_eval)

lemma rounding_op_20: "np_sub (Finite (- (5516909543528857 / 562949953421312))) (Finite (3602879701896397 / 18014398509481984)) = Finite (- (5629499534213119 / 562949953421312))"
  by (simp add: np_sub_def round64_eval)

lemma rounding_op_21: "np_add (Finite (- (5629499534213119 / 562949953421312))) (Finite (2871044762448691 / 281474976710656)) = Finite (112589990684263 / 562949953421312)"
  by (simp add: np_sub_def round64_eval)

lemma rounding_op_22: "np_sub (Finite (112589990684263 / 562949953421312)) (Finite (3602879701896397 / 18014398509481984)) = Finite (19 / 18014398509481984)"
  by (simp add: np_sub_def round64_eval)

lemma rounding_op_23: "np_abs (Finite (19 / 18014398509481984)) = Finite (19 / 18014398509481984)"
  by simp

lemma rounding_op_24: "np_divide (Finite (19 / 18014398509481984)) (Finite (1407656330388121 / 281474976710656)) = Finite (8555128437384823 / 40564819207303340847894502572032)"
  by (simp add: np_sub_def round64_eval)

lemma rounding_distance_2: "line_distance (np_point 1 (2871044762448691 / 562949953421312)) (np_point 2 (3602879701896397 / 18014398509481984)) (np_point 2 (3602879701896397 / 18014398509481984)) = Finite (8555128437384823 / 40564819207303340847894502572032)"
  unfolding line_distance_def Let_def rounding_op_1 rounding_op_2 rounding_op_3 rounding_op_4 rounding_op_5 rounding_op_6 rounding_op_7 rounding_op_8 rounding_op_9 rounding_op_10 rounding_op_11 rounding_op_12 rounding_op_13 rounding_op_14 rounding_op_15 rounding_op_16 rounding_op_17 rounding_op_18 rounding_op_19 rounding_op_20 rounding_op_21 rounding_op_22 rounding_op_23 rounding_op_24 fst_conv snd_conv
  by (rule refl)

lemma three_points_elbow: "find_optimal_k first_k_random [[0], [1], [10]] 3 () = (Inr 2, ())"
proof -
  have r: "[1..3] = [1, 2, 3::int]" by (simp add: upto_rec1)
  show ?thesis
    unfolding find_optimal_k_def Let_def r three_points_costs
    by (simp add: three_points_distance_1 three_points_distance_2 three_points_distance_3)
qed

theorem find_optimal_k_elbow_witness:
  "choice_ok first_k_random \<and> (1::int) \<le> 3
   \<and> find_optimal_k first_k_random [[0], [1], [10]] 3 () = (Inr 2, ())
   \<and> (\<exists>costs g k.
           collect_costs first_k_random [[0], [1], [10]] [1..3] () = (Inr costs, g)
           \<and> length costs = nat 3
           \<and> find_optimal_k first_k_random [[0], [1], [10]] 3 () = (Inr k, g)
           \<and> 1 \<le> k \<and> k \<le> 3
           \<and> (\<forall>j \<in> {1..3}. \<not> np_greater (curve_distance costs j) (curve_distance costs k))
           \<and> (\<forall>j \<in> {1..<k}. \<not> np_greater_equal (curve_distance costs j) (curve_distance costs k))
           \<and> (\<forall>j \<in> {1..3}. \<not> np_greater (Finite 0) (curve_distance costs j)))"
proof -
  have h1: "choice_ok first_k_random" by (rule choice_ok_first_k_random)
  have h2: "(1::int) \<le> 3" by simp
  note inst = find_optimal_k_elbow [OF h1 h2, of "[[0], [1], [10]]" "()"]
  show ?thesis using h1 h2 three_points_elbow inst by blast
qed

theorem find_optimal_k_single_candidate_witness:
  "choice_ok first_k_random
   \<and> find_optimal_k first_k_random [[0], [1], [10]] 1 () = (Inr 1, ())
   \<and> (\<exists>c g. collect_costs first_k_random [[0], [1], [10]] [1..1] () = (Inr [c], g)
           \<and> curve_distance [c] 1 = NaN
           \<and> \<not> np_greater (curve_distance [c] 1) (Finite 0)
           \<and> find_optimal_k first_k_random [[0], [1], [10]] 1 () = (Inr 1, g))"
proof -
  have h1: "choice_ok first_k_random" by (rule choice_ok_first_k_random)
  note inst = find_optimal_k_single_candidate [OF h1, of "[[0], [1], [10]]" "()"]
  then have "find_optimal_k first_k_random [[0], [1], [10]] 1 () = (Inr 1, ())" by auto
  then show ?thesis using h1 inst by blast
qed

lemma float64_fifth: "float64 (1 / 5) = 3602879701896397 / 18014398509481984"
  by (simp add: float64_def round64_eval)

lemma float64_five_and_tenth: "float64 (51 / 10) = 2871044762448691 / 562949953421312"
  by (simp add: float64_def round64_eval)

lemma rounding_k1:
  "kmedians first_k_random
     [[3602879701896397 / 18014398509481984], [0], [2871044762448691 / 562949953421312]]
     1 100 100 ()
   = (Inr ([0, 0, 0], [[3602879701896397 / 18014398509481984]],
           2871044762448691 / 562949953421312), ())"
  by (simp add: kmedians_eval)

lemma rounding_k2:
  "kmedians first_k_random
     [[3602879701896397 / 18014398509481984], [0], [2871044762448691 / 562949953421312]]
     2 100 100 ()
   = (Inr ([1, 1, 0],
           [[2871044762448691 / 562949953421312], [3602879701896397 / 36028797018963968]],
           3602879701896397 / 18014398509481984), ())"
  by (simp add: kmedians_eval)

lemma rounding_costs:
  "collect_costs first_k_random
     [[3602879701896397 / 18014398509481984], [0], [2871044762448691 / 562949953421312]]
     [1, 2] ()
   = (Inr [2871044762448691 / 562949953421312, 3602879701896397 / 18014398509481984], ())"
  by (simp add: rounding_k1 rounding_k2)

text \<open>
  Three users with the one feature 0.2, 0.0 and 5.1, \<open>max_k = 2\<close>, the generator drawing
  the first positions. The cost curve is \<open>[5.1, 0.2]\<close>. Both candidates are end points of
  the curve: both lie on the line through the end points, their perpendicular distance is
  0, and of the two candidates of maximum distance the first is 1. In float64 the
  products and sums of the numerator round, the numerator is \<open>13 / 2 ^ 54\<close> for the first
  candidate and \<open>19 / 2 ^ 54\<close> for the second, the second computed distance is the greater
  one, and the selector returns 2.
\<close>

theorem find_optimal_k_rounding:
  "collect_costs first_k_random [[float64 (1 / 5)], [0], [float64 (51 / 10)]] [1..2] ()
     = (Inr [float64 (51 / 10), float64 (1 / 5)], ())
   \<and> perpendicular_distance [float64 (51 / 10), float64 (1 / 5)] 1 = 0
   \<and> perpendicular_distance [float64 (51 / 10), float64 (1 / 5)] 2 = 0
   \<and> curve_distance [float64 (51 / 10), float64 (1 / 5)] 1
       = Finite (5853508930842247 / 2 ^ 105)
   \<and> curve_distance [float64 (51 / 10), float64 (1 / 5)] 2
       = Finite (8555128437384823 / 2 ^ 105)
   \<and> find_optimal_k first_k_random [[float64 (1 / 5)], [0], [float64 (51 / 10)]] 2 ()
       = (Inr 2, ())"
proof -
  have r: "[1..2] = [1, 2::int]" by (simp add: upto_rec1)
  have c: "collect_costs first_k_random [[float64 (1 / 5)], [0], [float64 (51 / 10)]] [1..2] ()
     = (Inr [float64 (51 / 10), float64 (1 / 5)], ())"
    unfolding r float64_fifth float64_five_and_tenth by (rule rounding_costs)
  have p1: "perpendicular_distance [float64 (51 / 10), float64 (1 / 5)] 1 = 0"
    unfolding float64_fifth float64_five_and_tenth
    by (simp add: perpendicular_distance_def)
  have p2: "perpendicular_distance [float64 (51 / 10), float64 (1 / 5)] 2 = 0"
    unfolding float64_fifth float64_five_and_tenth
    by (simp add: perpendicular_distance_def)
  have d1: "curve_distance [float64 (51 / 10), float64 (1 / 5)] 1
       = Finite (5853508930842247 / 2 ^ 105)"
    unfolding float64_fifth float64_five_and_tenth
    by (simp add: curve_distance_def rounding_distance_1)
  have d2: "curve_distance [float64 (51 / 10), float64 (1 / 5)] 2
       = Finite (8555128437384823 / 2 ^ 105)"
    unfolding float64_fifth float64_five_and_tenth
    by (simp add: curve_distance_def rounding_distance_2)
  have f: "find_optimal_k first_k_random [[float64 (1 / 5)], [0], [float64 (51 / 10)]] 2 ()
       = (Inr 2, ())"
    unfolding find_optimal_k_def Let_def r float64_fifth float64_five_and_tenth rounding_costs
    by (simp add: rounding_distance_1 rounding_distance_2)
  show ?thesis using c p1 p2 d1 d2 f by simp
qed

section \<open>Properties of the cluster ranker\<close>

lemma dict_zip_nth:
  assumes "distinct ks" "length ks = length vs" "i < length ks"
  shows "(Map.empty (ks [\<mapsto>] vs)) (ks ! i) = Some (vs ! i)"
proof -
  let ?n = "length ks"
  have i': "?n - Suc i < length (rev vs)" using assms by simp
  have "map_of (zip (rev ks) (rev vs)) (rev ks ! (?n - Suc i)) = Some (rev vs ! (?n - Suc i))"
    by (rule map_of_zip_nth) (use assms i' in simp_all)
  moreover have "rev ks ! (?n - Suc i) = ks ! i"
    using assms(3) by (simp add: rev_nth)
  moreover have "rev vs ! (?n - Suc i) = vs ! i"
    using assms(2,3) by (simp add: rev_nth)
  moreover have "rev (zip ks vs) = zip (rev ks) (rev vs)"
    using assms(2) by (simp add: zip_rev)
  ultimately show ?thesis by (simp add: map_upds_def)
qed

lemma groupby_mean_keys: "map fst (groupby_mean P labels vals) = sort (remdups labels)"
  by (simp add: groupby_mean_def comp_def)

lemma groupby_mean_row:
  "r \<in> set (groupby_mean P labels vals) \<Longrightarrow> snd r = pd_mean P (group_values labels vals (fst r))"
  by (auto simp: groupby_mean_def)

lemma ranker_keys:
  assumes "ascending_sort P"
  shows "distinct (map fst (pd_sort_values P (groupby_mean P labels vals)))"
    and "set (map fst (pd_sort_values P (groupby_mean P labels vals))) = set labels"
    and "length (pd_sort_values P (groupby_mean P labels vals)) = length (remdups labels)"
proof -
  let ?rows = "groupby_mean P labels vals"
  let ?srt = "pd_sort_values P"
  have ms: "mset (?srt ?rows) = mset ?rows"
    using assms unfolding ascending_sort_def by blast
  then have mk: "mset (map fst (?srt ?rows)) = mset (map fst ?rows)"
    by simp
  have d: "distinct (map fst ?rows)" by (simp add: groupby_mean_keys)
  show "distinct (map fst (?srt ?rows))"
    using mset_eq_imp_distinct_iff [OF mk] d by simp
  have "set (map fst (?srt ?rows)) = set (map fst ?rows)"
    by (rule mset_eq_setD [OF mk])
  then show "set (map fst (?srt ?rows)) = set labels"
    by (simp add: groupby_mean_keys)
  have "length (?srt ?rows) = length ?rows"
    by (rule mset_eq_length [OF ms])
  then show "length (?srt ?rows) = length (remdups labels)"
    by (simp add: groupby_mean_def)
qed

lemma ranker_row_mean:
  assumes "ascending_sort P" "p < length (pd_sort_values P (groupby_mean P labels vals))"
  shows "snd (pd_sort_values P (groupby_mean P labels vals) ! p)
           = pd_mean P (group_values labels vals
               (fst (pd_sort_values P (groupby_mean P labels vals) ! p)))"
proof -
  let ?rows = "groupby_mean P labels vals"
  have "mset (pd_sort_values P ?rows) = mset ?rows"
    using assms(1) unfolding ascending_sort_def by blast
  then have "set (pd_sort_values P ?rows) = set ?rows" by (rule mset_eq_setD)
  then have "pd_sort_values P ?rows ! p \<in> set ?rows" using assms(2) nth_mem by blast
  then show ?thesis by (rule groupby_mean_row)
qed

lemma ranker_ascending:
  assumes "ascending_sort P" "p \<le> q" "q < length (pd_sort_values P (groupby_mean P labels vals))"
  shows "snd (pd_sort_values P (groupby_mean P labels vals) ! p)
           \<le> snd (pd_sort_values P (groupby_mean P labels vals) ! q)"
proof -
  let ?temp = "pd_sort_values P (groupby_mean P labels vals)"
  have "sorted (map snd ?temp)"
    using assms(1) unfolding ascending_sort_def by blast
  then have "map snd ?temp ! p \<le> map snd ?temp ! q"
    by (rule sorted_nth_mono) (use assms in simp_all)
  then show ?thesis using assms by simp
qed

lemma cluster_mapping_nth:
  assumes "ascending_sort P" "p < length (pd_sort_values P (groupby_mean P labels vals))"
  shows "cluster_mapping P labels vals (fst (pd_sort_values P (groupby_mean P labels vals) ! p))
           = Some (p + 1)"
proof -
  let ?temp = "pd_sort_values P (groupby_mean P labels vals)"
  let ?ids = "map (\<lambda>i. i + 1) [0..<length ?temp]"
  have "(Map.empty (map fst ?temp [\<mapsto>] ?ids)) (map fst ?temp ! p) = Some (?ids ! p)"
    by (rule dict_zip_nth) (use assms ranker_keys(1) [OF assms(1)] in simp_all)
  then show ?thesis
    using assms(2) by (simp add: cluster_mapping_def Let_def)
qed

lemma cluster_mapping_label:
  assumes "ascending_sort P" "l \<in> set labels"
  shows "\<exists>p < length (pd_sort_values P (groupby_mean P labels vals)).
           fst (pd_sort_values P (groupby_mean P labels vals) ! p) = l
           \<and> cluster_mapping P labels vals l = Some (p + 1)"
proof -
  let ?temp = "pd_sort_values P (groupby_mean P labels vals)"
  have "l \<in> set (map fst ?temp)"
    using assms(2) ranker_keys(2) [OF assms(1)] by simp
  then obtain p where p: "p < length ?temp" and l: "map fst ?temp ! p = l"
    by (auto simp: in_set_conv_nth)
  have "fst (?temp ! p) = l" using p l by simp
  then show ?thesis
    using cluster_mapping_nth [OF assms(1) p] p by auto
qed

lemma cluster_mapping_inj:
  assumes "ascending_sort P" "l \<in> set labels" "l' \<in> set labels"
    "cluster_mapping P labels vals l = cluster_mapping P labels vals l'"
  shows "l = l'"
proof -
  let ?temp = "pd_sort_values P (groupby_mean P labels vals)"
  from cluster_mapping_label [OF assms(1,2), of vals]
  obtain p where p: "fst (?temp ! p) = l" "cluster_mapping P labels vals l = Some (p + 1)"
    by blast
  from cluster_mapping_label [OF assms(1,3), of vals]
  obtain q where q: "fst (?temp ! q) = l'" "cluster_mapping P labels vals l' = Some (q + 1)"
    by blast
  have "p = q" using p(2) q(2) assms(4) by simp
  then show ?thesis using p(1) q(1) by simp
qed

lemma final_mean_rank:
  assumes "ascending_sort P" "u < length labels"
    "cluster_mapping P labels vals (labels ! u) = Some a"
  shows "final_mean P (rank_clusters P labels vals) vals a
           = pd_mean P (group_values labels vals (labels ! u))"
proof -
  let ?M = "cluster_mapping P labels vals"
  let ?g = "\<lambda>(l, v). (?M l, v :: real)"
  have z: "zip (map ?M labels) vals = map ?g (zip labels vals)"
    by (simp add: zip_map1)
  have f: "filter (\<lambda>(l, v). l = Some a) (map ?g (zip labels vals))
             = map ?g (filter (\<lambda>(l, v). ?M l = Some a) (zip labels vals))"
    by (simp add: filter_map comp_def case_prod_unfold)
  have s: "map snd (map ?g ys) = map snd ys" for ys
    by (simp add: comp_def case_prod_unfold)
  have c: "filter (\<lambda>(l, v). ?M l = Some a) (zip labels vals)
             = filter (\<lambda>(l, v). l = labels ! u) (zip labels vals)"
  proof (rule filter_cong [OF refl])
    fix x assume x: "x \<in> set (zip labels vals)"
    obtain l v where lv: "x = (l, v)" by (cases x) auto
    have l: "l \<in> set labels" using x lv by (auto dest: set_zip_leftD)
    have lu: "labels ! u \<in> set labels" using assms(2) by simp
    have "(?M l = Some a) = (l = labels ! u)"
      using cluster_mapping_inj [OF assms(1) l lu, of vals] assms(3) by auto
    then show "(case x of (l, v) \<Rightarrow> ?M l = Some a) = (case x of (l, v) \<Rightarrow> l = labels ! u)"
      by (simp add: lv)
  qed
  show ?thesis
    unfolding final_mean_def rank_clusters_def group_values_def z f s c ..
qed

text \<open>
  Claim C7, as the code has it. Let \<open>sort_values\<close> return the summary rows rearranged in
  ascending order of the mean, which is all that pandas promises of it. Then every user
  gets a final label between 1 and the number of clusters in use; two users have the same
  final label exactly when they had the same label before (membership is unchanged); and a
  smaller final label has a smaller or equal mean of the primary metric, the means being
  the ones pandas computes. Every final label in use is the label of some user, so the
  users \<open>u\<close> and \<open>v\<close> range over all pairs of final labels. Nothing is said of the order of
  two clusters of equal mean.
\<close>

theorem rank_clusters_ordered:
  assumes "ascending_sort P" "length labels = length vals"
    "u < length labels" "v < length labels"
  shows "\<exists>a b. rank_clusters P labels vals ! u = Some a
           \<and> rank_clusters P labels vals ! v = Some b
           \<and> 1 \<le> a \<and> a \<le> length (remdups labels)
           \<and> ((a = b) = (labels ! u = labels ! v))
           \<and> (a < b \<longrightarrow>
                 final_mean P (rank_clusters P labels vals) vals a
                   \<le> final_mean P (rank_clusters P labels vals) vals b)"
proof -
  let ?temp = "pd_sort_values P (groupby_mean P labels vals)"
  let ?M = "cluster_mapping P labels vals"
  let ?final = "rank_clusters P labels vals"
  note st = assms(1)
  have lu: "labels ! u \<in> set labels" and lv: "labels ! v \<in> set labels"
    using assms(3,4) by simp_all
  from cluster_mapping_label [OF st lu, of vals]
  obtain p where p: "p < length ?temp" "fst (?temp ! p) = labels ! u" "?M (labels ! u) = Some (p + 1)"
    by blast
  from cluster_mapping_label [OF st lv, of vals]
  obtain q where q: "q < length ?temp" "fst (?temp ! q) = labels ! v" "?M (labels ! v) = Some (q + 1)"
    by blast
  have fu: "?final ! u = Some (p + 1)"
    using assms(3) p(3) by (simp add: rank_clusters_def)
  have fv: "?final ! v = Some (q + 1)"
    using assms(4) q(3) by (simp add: rank_clusters_def)
  have rng: "1 \<le> p + 1" "p + 1 \<le> length (remdups labels)"
    using p(1) ranker_keys(3) [OF st, of labels vals] by simp_all
  have mem: "(p + 1 = q + 1) = (labels ! u = labels ! v)"
  proof
    assume "p + 1 = q + 1"
    then show "labels ! u = labels ! v" using p(2) q(2) by simp
  next
    assume "labels ! u = labels ! v"
    then have "?M (labels ! u) = ?M (labels ! v)" by simp
    then show "p + 1 = q + 1" using p(3) q(3) by simp
  qed
  have mu: "final_mean P ?final vals (p + 1) = snd (?temp ! p)"
    using final_mean_rank [OF st assms(3) p(3)] ranker_row_mean [OF st p(1)] p(2) by simp
  have mv: "final_mean P ?final vals (q + 1) = snd (?temp ! q)"
    using final_mean_rank [OF st assms(4) q(3)] ranker_row_mean [OF st q(1)] q(2) by simp
  have ord: "final_mean P ?final vals (p + 1) \<le> final_mean P ?final vals (q + 1)" if "p + 1 < q + 1"
  proof -
    have "p \<le> q" using that by simp
    from ranker_ascending [OF st this q(1)] show ?thesis
      by (simp only: mu mv)
  qed
  show ?thesis
    using fu fv rng mem ord by blast
qed

lemma ascending_sort_insertion: "ascending_sort insertion_pandas"
  unfolding ascending_sort_def insertion_pandas_def
  by (simp add: sorted_sort_key)

lemma ascending_sort_reversing: "ascending_sort reversing_pandas"
proof -
  have "sorted (map snd (rev (sort_key (\<lambda>r. - snd r) rows)))" for rows :: summary
  proof -
    have "sorted (map (\<lambda>r. - snd r) (sort_key (\<lambda>r. - snd r) rows))"
      by (rule sorted_sort_key)
    then show ?thesis
      by (simp add: rev_map sorted_wrt_rev sorted_map sorted_wrt_map)
  qed
  then show ?thesis
    unfolding ascending_sort_def reversing_pandas_def by simp
qed

lemma rank_example:
  "rank_clusters insertion_pandas [1, 0, 1, 2] [10, 50, 30, 20] = [Some 1, Some 3, Some 1, Some 2]"
  by (simp add: rank_clusters_def cluster_mapping_def groupby_mean_def group_values_def mean_def
      insertion_pandas_def Let_def upt_conv_Cons)

theorem rank_clusters_ordered_witness:
  "ascending_sort insertion_pandas
   \<and> length [1::nat, 0, 1, 2] = length [10::real, 50, 30, 20]
   \<and> (0::nat) < length [1::nat, 0, 1, 2] \<and> (3::nat) < length [1::nat, 0, 1, 2]
   \<and> rank_clusters insertion_pandas [1, 0, 1, 2] [10, 50, 30, 20]
       = [Some 1, Some 3, Some 1, Some 2]
   \<and> (\<exists>a b. rank_clusters insertion_pandas [1, 0, 1, 2] [10, 50, 30, 20] ! 0 = Some a
           \<and> rank_clusters insertion_pandas [1, 0, 1, 2] [10, 50, 30, 20] ! 3 = Some b
           \<and> 1 \<le> a \<and> a \<le> length (remdups [1::nat, 0, 1, 2])
           \<and> ((a = b) = ([1::nat, 0, 1, 2] ! 0 = [1, 0, 1, 2] ! 3))
           \<and> (a < b \<longrightarrow>
                 final_mean insertion_pandas
                     (rank_clusters insertion_pandas [1, 0, 1, 2] [10, 50, 30, 20])
                     [10, 50, 30, 20] a
                   \<le> final_mean insertion_pandas
                     (rank_clusters insertion_pandas [1, 0, 1, 2] [10, 50, 30, 20])
                     [10, 50, 30, 20] b))"
proof -
  have h1: "ascending_sort insertion_pandas" by (rule ascending_sort_insertion)
  have h2: "length [1::nat, 0, 1, 2] = length [10::real, 50, 30, 20]" by simp
  have h3: "(0::nat) < length [1::nat, 0, 1, 2]" by simp
  have h4: "(3::nat) < length [1::nat, 0, 1, 2]" by simp
  note inst = rank_clusters_ordered [OF h1 h2 h3 h4]
  show ?thesis
    using h1 h2 h3 h4 rank_example inst by blast
qed

text \<open>
  Two clusters of equal mean: labels \<open>0\<close> and \<open>1\<close>, one user each, both of primary metric 5.
  A sort that meets what pandas promises (\<open>ascending_sort_reversing\<close>) hands the two rows
  back in reverse order, and the cluster of the smaller original label gets the greater
  final label.
\<close>

theorem rank_clusters_tie_reversed:
  "groupby_mean reversing_pandas [0, 1] [5, 5] = [(0, 5), (1, 5)]
   \<and> pd_sort_values reversing_pandas [(0, 5), (1, 5)] = [(1, 5), (0, 5)]
   \<and> sorted (map snd (pd_sort_values reversing_pandas [(0, 5), (1, 5)]))
   \<and> rank_clusters reversing_pandas [0, 1] [5, 5] = [Some 2, Some 1]"
  by (simp add: rank_clusters_def cluster_mapping_def groupby_mean_def group_values_def mean_def
      reversing_pandas_def Let_def upt_conv_Cons)

end
